theory Spec2Isabelle
  imports Main "HOL-Library.Word" "HOL-Library.Char_ord" "HOL-Library.List_Lexorder"
begin

unbundle bit_operations_syntax

section \<open>Strings and the fingerprint (\<open>_fingerprint\<close>, scholar\_watcher.py 128--130)\<close>

text \<open>
  A Python \<open>str\<close> is modelled as a \<open>string\<close> whose characters are the code points
  U+0000 .. U+00FF. \<open>isspace\<close> is \<open>str.isspace\<close> on that range, \<open>strip\<close> is
  \<open>str.strip()\<close> with no argument, \<open>join\<close> is \<open>sep.join(xs)\<close> and \<open>encode_utf8\<close>
  is \<open>s.encode("utf-8")\<close> (one byte below U+0080, two bytes from there on).
\<close>

definition isspace :: "char \<Rightarrow> bool" where
  "isspace c = (of_char c \<in> {9, 10, 11, 12, 13, 28, 29, 30, 31, 32, 133, 160 :: nat})"

definition strip :: "string \<Rightarrow> string" where
  "strip s = rev (dropWhile isspace (rev (dropWhile isspace s)))"

fun join :: "string \<Rightarrow> string list \<Rightarrow> string" where
  "join sep [] = []"
| "join sep [x] = x"
| "join sep (x # y # ys) = x @ sep @ join sep (y # ys)"

definition utf8_char :: "char \<Rightarrow> 8 word list" where
  "utf8_char c =
     (let n = of_char c :: nat
      in if n < 128 then [of_nat n]
         else [of_nat (192 + n div 64), of_nat (128 + n mod 64)])"

definition encode_utf8 :: "string \<Rightarrow> 8 word list" where
  "encode_utf8 s = concat (map utf8_char s)"

text \<open>
  \<open>hexdigest\<close> writes a 256-bit digest as 64 lower-case hexadecimal digits, most
  significant first, as \<open>hashlib\<close>'s \<open>.hexdigest()\<close> does.
\<close>

definition hex_digit :: "nat \<Rightarrow> char" where
  "hex_digit n = (if n < 10 then char_of (48 + n) else char_of (87 + n))"

fun hex_of :: "nat \<Rightarrow> nat \<Rightarrow> string" where
  "hex_of 0 n = []"
| "hex_of (Suc k) n = hex_of k (n div 16) @ [hex_digit (n mod 16)]"

definition hexdigest :: "256 word \<Rightarrow> string" where
  "hexdigest d = hex_of 64 (unat d)"


text \<open>
  \<open>hashlib.sha256\<close> belongs to the Python standard library, not to the repository: the
  digest function is a parameter \<open>sha256\<close>, from the bytes of the message to the 256-bit
  digest. Source:
  \<^verbatim>\<open>base = f"{title.strip()}|{authors.strip()}|{year.strip()}|{url.strip()}"\<close>
  \<^verbatim>\<open>return hashlib.sha256(base.encode("utf-8")).hexdigest()\<close>
\<close>

definition fingerprint ::
  "(8 word list \<Rightarrow> 256 word) \<Rightarrow> string \<Rightarrow> string \<Rightarrow> string \<Rightarrow> string \<Rightarrow> string" where
  "fingerprint sha256 t a y u =
     (let base = strip t @ ''|'' @ strip a @ ''|'' @ strip y @ ''|'' @ strip u
      in hexdigest (sha256 (encode_utf8 base)))"


section \<open>Data model\<close>

text \<open>Exceptions that reach the watcher. \<open>ScholarlyError\<close> stands for whatever the
  search library raises; \<open>RequestException\<close> for a transport failure of
  \<open>requests.post\<close>; \<open>HTTPError\<close> is raised by \<open>raise_for_status\<close>.\<close>

datatype error =
    ScholarlyError string
  | RuntimeError string
  | RequestException
  | HTTPError nat
  | IntegrityError

text \<open>\<open>pub.bib\<close> of a search result, read with \<open>.get\<close>: a missing key is \<open>None\<close>.\<close>

record bib =
  bib_title :: "string option"
  bib_url :: "string option"
  bib_author :: "string list option"
  bib_year :: "string option"

text \<open>The dictionary built by \<open>fetch_scholar_results\<close> for one candidate.\<close>

record paper =
  title :: string
  url :: string
  authors :: string
  year :: string

text \<open>Rows of the tables \<open>keywords\<close> and \<open>seen_papers\<close> (\<open>init_db\<close>, 94--123).\<close>

record keyword_row =
  k_id :: int
  k_term :: string
  k_created_at :: string

record seen_row =
  sp_id :: int
  sp_kw_term :: string
  sp_fingerprint :: string
  sp_title :: string
  sp_url :: string
  sp_authors :: string
  sp_year :: string
  sp_first_seen :: string

text \<open>The SQLite file: both tables in insertion order, and for each the largest row id
  ever handed out (\<open>AUTOINCREMENT\<close> keeps it in \<open>sqlite_sequence\<close>).\<close>

record database =
  keyword_rows :: "keyword_row list"
  keywords_seq :: int
  seen_papers :: "seen_row list"
  seen_papers_seq :: int

text \<open>What a run prints (the time stamp of the line is left out).\<close>

datatype log_line =
    HTTPErrorLine string error
  | ErrorLine string error
  | NewPapersLine int

text \<open>
  The state a run reads and changes: the database, the number of calls made so far to
  the outside (search, webhook, system time), the POSTs attempted on the webhook (URL and
  content) and the printed lines.
\<close>

record world =
  db :: database
  clock :: nat
  outbox :: "(string \<times> string) list"
  console :: "log_line list"

datatype post_result = TransportFailure | Response nat

text \<open>
  Configuration, library and outside services. The services answer as a function of
  the number of calls made before, so that two identical calls may be answered
  differently. \<open>search_pubs\<close> gives the iterator of \<open>scholarly.search_pubs\<close>, or the
  exception it raises; an item \<open>Inl e\<close> is a \<open>next\<close> that raises \<open>e\<close>, the end of the
  list is \<open>StopIteration\<close>. \<open>requests_post\<close> is the webhook's answer to a POST.
\<close>

record env =
  DISCORD_WEBHOOK_URL :: string
  PER_KEYWORD_LIMIT :: int
  sha256 :: "8 word list \<Rightarrow> 256 word"
  search_pubs :: "nat \<Rightarrow> string \<Rightarrow> error + (error + bib) list"
  requests_post :: "nat \<Rightarrow> string \<Rightarrow> string \<Rightarrow> post_result"
  utcnow :: "nat \<Rightarrow> string"

section \<open>Result store\<close>

definition seen :: "database \<Rightarrow> string \<Rightarrow> string \<Rightarrow> bool" where
  "seen d kw fp =
     list_ex (\<lambda>r. sp_kw_term r = kw \<and> sp_fingerprint r = fp) (seen_papers d)"

definition next_rowid :: "int \<Rightarrow> int list \<Rightarrow> int" where
  "next_rowid seq ids = fold max ids seq + 1"

text \<open>
  \<^verbatim>\<open>INSERT INTO seen_papers (kw_term, fingerprint, title, url, authors, year, first_seen)\<close>
  (186--200): \<open>UNIQUE(kw_term, fingerprint)\<close> makes it raise \<open>sqlite3.IntegrityError\<close>
  and change nothing when the pair has a row.
\<close>

definition insert_seen_paper ::
  "database \<Rightarrow> string \<Rightarrow> string \<Rightarrow> paper \<Rightarrow> string \<Rightarrow> error + database" where
  "insert_seen_paper d kw fp p now =
     (if seen d kw fp then Inl IntegrityError
      else
        (let rid = next_rowid (seen_papers_seq d) (map sp_id (seen_papers d))
         in Inr (d\<lparr>seen_papers := seen_papers d @
                     [\<lparr>sp_id = rid, sp_kw_term = kw, sp_fingerprint = fp,
                       sp_title = title p, sp_url = url p, sp_authors = authors p,
                       sp_year = year p, sp_first_seen = now\<rparr>],
                   seen_papers_seq := rid\<rparr>)))"

text \<open>The claim of the specification: the INSERT with its handler
  \<^verbatim>\<open>except sqlite3.IntegrityError: pass\<close> (209--211).\<close>

datatype claim_result = Claimed | AlreadySeen

definition claim ::
  "database \<Rightarrow> string \<Rightarrow> string \<Rightarrow> paper \<Rightarrow> string \<Rightarrow> claim_result \<times> database" where
  "claim d kw fp p now =
     (case insert_seen_paper d kw fp p now of
        Inl e \<Rightarrow> (AlreadySeen, d)
      | Inr d' \<Rightarrow> (Claimed, d'))"

text \<open>\<^verbatim>\<open>DELETE FROM seen_papers WHERE kw_term=? AND fingerprint=?\<close> (206).\<close>

definition release :: "database \<Rightarrow> string \<Rightarrow> string \<Rightarrow> database" where
  "release d kw fp =
     d\<lparr>seen_papers :=
         filter (\<lambda>r. \<not> (sp_kw_term r = kw \<and> sp_fingerprint r = fp)) (seen_papers d)\<rparr>"

text \<open>A run of claims on one pair, each with its own fields and time stamp.\<close>

fun claims ::
  "database \<Rightarrow> string \<Rightarrow> string \<Rightarrow> (paper \<times> string) list \<Rightarrow> claim_result list \<times> database" where
  "claims d kw fp [] = ([], d)"
| "claims d kw fp (c # cs) =
     (let (r, d1) = claim d kw fp (fst c) (snd c);
          (rs, d2) = claims d1 kw fp cs
      in (r # rs, d2))"

definition unique_pairs :: "database \<Rightarrow> bool" where
  "unique_pairs d = distinct (map (\<lambda>r. (sp_kw_term r, sp_fingerprint r)) (seen_papers d))"

definition unique_terms :: "database \<Rightarrow> bool" where
  "unique_terms d = distinct (map k_term (keyword_rows d))"

section \<open>Control surface: \<open>add_keyword\<close> (332--344) and \<open>delete_keyword\<close> (347--356)\<close>

definition add_keyword :: "env \<Rightarrow> string \<Rightarrow> world \<Rightarrow> world" where
  "add_keyword e raw w =
     (let t = strip raw
      in if t = [] then w
         else
           (let now = utcnow e (clock w);
                w1 = w\<lparr>clock := Suc (clock w)\<rparr>;
                d = db w1
            in if list_ex (\<lambda>r. k_term r = t) (keyword_rows d) then w1
               else
                 (let rid = next_rowid (keywords_seq d) (map k_id (keyword_rows d))
                  in w1\<lparr>db := d\<lparr>keyword_rows := keyword_rows d @
                                   [\<lparr>k_id = rid, k_term = t, k_created_at = now\<rparr>],
                                 keywords_seq := rid\<rparr>\<rparr>)))"

definition delete_keyword :: "int \<Rightarrow> database \<Rightarrow> database" where
  "delete_keyword i d =
     (case find (\<lambda>r. k_id r = i) (keyword_rows d) of
        None \<Rightarrow> d
      | Some r \<Rightarrow>
          d\<lparr>keyword_rows := filter (\<lambda>x. k_id x \<noteq> i) (keyword_rows d),
            seen_papers := filter (\<lambda>x. sp_kw_term x \<noteq> k_term r) (seen_papers d)\<rparr>)"

section \<open>Search (\<open>fetch_scholar_results\<close>, 135--149)\<close>

definition get_or :: "'a option \<Rightarrow> 'a \<Rightarrow> 'a" where
  "get_or v dflt = (case v of None \<Rightarrow> dflt | Some x \<Rightarrow> x)"

definition to_paper :: "bib \<Rightarrow> paper" where
  "to_paper b =
     \<lparr>title = get_or (bib_title b) [],
      url = get_or (bib_url b) [],
      authors = join '', '' (get_or (bib_author b) []),
      year = get_or (bib_year b) []\<rparr>"

fun fetch_loop :: "nat \<Rightarrow> (error + bib) list \<Rightarrow> paper list \<Rightarrow> error + paper list" where
  "fetch_loop 0 search results = Inr results"
| "fetch_loop (Suc n) [] results = Inr results"
| "fetch_loop (Suc n) (Inl e # search) results = Inl e"
| "fetch_loop (Suc n) (Inr pub # search) results =
     fetch_loop n search (results @ [to_paper pub])"

definition fetch_scholar_results ::
  "env \<Rightarrow> string \<Rightarrow> int \<Rightarrow> world \<Rightarrow> (error + paper list) \<times> world" where
  "fetch_scholar_results e keyword num w =
     (let w1 = w\<lparr>clock := Suc (clock w)\<rparr>
      in case search_pubs e (clock w) keyword of
           Inl err \<Rightarrow> (Inl err, w1)
         | Inr search \<Rightarrow> (fetch_loop (nat num) search [], w1))"

section \<open>Notifier (\<open>send_to_discord\<close>, 155--174)\<close>

definition py_or :: "string \<Rightarrow> string \<Rightarrow> string" where
  "py_or x dflt = (if x = [] then dflt else x)"

definition discord_content :: "string \<Rightarrow> paper \<Rightarrow> string" where
  "discord_content keyword p =
     ''**New paper found** for **'' @ keyword @ ''**'' @ [CHR 0x0A] @
     ''**'' @ py_or (title p) ''Untitled'' @ ''** ('' @ py_or (year p) ''Year n/a'' @ '')'' @
       [CHR 0x0A] @
     ''*'' @ py_or (authors p) ''Unknown authors'' @ ''*'' @ [CHR 0x0A] @
     py_or (url p) []"

definition send_to_discord ::
  "env \<Rightarrow> string \<Rightarrow> paper \<Rightarrow> world \<Rightarrow> (error + unit) \<times> world" where
  "send_to_discord e keyword p w =
     (if DISCORD_WEBHOOK_URL e = []
      then (Inl (RuntimeError ''DISCORD_WEBHOOK_URL missing; set it in .env''), w)
      else
        (let content = discord_content keyword p;
             w1 = w\<lparr>clock := Suc (clock w),
                    outbox := outbox w @ [(DISCORD_WEBHOOK_URL e, content)]\<rparr>
         in case requests_post e (clock w) (DISCORD_WEBHOOK_URL e) content of
              TransportFailure \<Rightarrow> (Inl RequestException, w1)
            | Response status \<Rightarrow>
                if 400 \<le> status \<and> status < 600 then (Inl (HTTPError status), w1)
                else (Inr (), w1)))"

section \<open>Core watcher (\<open>process_keyword\<close>, 179--212; \<open>run_cycle\<close>, 215--230)\<close>

text \<open>
  The loop over \<open>rows\<close>. The connection of \<open>db()\<close> commits in its \<open>finally\<close>, so
  what was written before an exception stays written. The time stamp is an argument
  of the INSERT and is read before the statement runs.
\<close>

fun process_rows ::
  "env \<Rightarrow> string \<Rightarrow> paper list \<Rightarrow> world \<Rightarrow> int \<Rightarrow> (error + int) \<times> world" where
  "process_rows e keyword [] w new_count = (Inr new_count, w)"
| "process_rows e keyword (p # rows) w new_count =
     (let fp = fingerprint (sha256 e) (title p) (authors p) (year p) (url p);
          now = utcnow e (clock w);
          w1 = w\<lparr>clock := Suc (clock w)\<rparr>
      in case insert_seen_paper (db w1) keyword fp p now of
           Inl integrity \<Rightarrow> process_rows e keyword rows w1 new_count
         | Inr d \<Rightarrow>
             (case send_to_discord e keyword p (w1\<lparr>db := d\<rparr>) of
                (Inl notify_err, w2) \<Rightarrow>
                  (Inl notify_err, w2\<lparr>db := release (db w2) keyword fp\<rparr>)
              | (Inr sent, w2) \<Rightarrow> process_rows e keyword rows w2 (new_count + 1)))"

definition process_keyword :: "env \<Rightarrow> string \<Rightarrow> world \<Rightarrow> (error + int) \<times> world" where
  "process_keyword e keyword w =
     (case fetch_scholar_results e keyword (PER_KEYWORD_LIMIT e) w of
        (Inl err, w1) \<Rightarrow> (Inl err, w1)
      | (Inr rows, w1) \<Rightarrow> process_rows e keyword rows w1 0)"

definition error_line :: "string \<Rightarrow> error \<Rightarrow> log_line" where
  "error_line kw err =
     (case err of HTTPError status \<Rightarrow> HTTPErrorLine kw err | _ \<Rightarrow> ErrorLine kw err)"

definition print_line :: "log_line \<Rightarrow> world \<Rightarrow> world" where
  "print_line l w = w\<lparr>console := console w @ [l]\<rparr>"

text \<open>The loop of \<open>run_cycle\<close> over the terms. Both handlers print and go on;
  \<open>time.sleep(1.0)\<close> after a keyword changes nothing of the state.\<close>

fun run_terms :: "env \<Rightarrow> string list \<Rightarrow> world \<Rightarrow> int \<Rightarrow> int \<times> world" where
  "run_terms e [] w total_new = (total_new, w)"
| "run_terms e (kw # terms) w total_new =
     (case process_keyword e kw w of
        (Inr n, w1) \<Rightarrow> run_terms e terms w1 (total_new + n)
      | (Inl err, w1) \<Rightarrow> run_terms e terms (print_line (error_line kw err) w1) total_new)"

text \<open>\<^verbatim>\<open>SELECT term FROM keywords ORDER BY term ASC\<close> compares the UTF-8 bytes of the
  terms, which is the order of their code points.\<close>

definition run_cycle :: "env \<Rightarrow> world \<Rightarrow> int \<times> world" where
  "run_cycle e w =
     (let terms = sort (map k_term (keyword_rows (db w)));
          (total_new, w1) = run_terms e terms w 0
      in (total_new,
          if total_new \<noteq> 0 then print_line (NewPapersLine total_new) w1 else w1))"

section \<open>Sample inputs\<close>

text \<open>A stand-in for the digest parameter in the worked examples: the length of the
  message. The theorems hold for every digest function.\<close>

definition sample_digest :: "8 word list \<Rightarrow> 256 word" where
  "sample_digest bs = of_nat (length bs)"

text \<open>
  A database with three keywords and no seen paper, one with the keyword \<open>bert\<close>
  alone, and surroundings in which the search finds the same three publications for
  every keyword but \<open>offline\<close>, for which it raises. The webhook answers by the number
  of calls made before: in a cycle that starts at clock 0 the search of the first
  keyword is call 0, the time stamp and the POST of its first candidate are calls 1
  and 2, those of its second candidate calls 3 and 4. \<open>second_post_fails\<close> answers
  429 to that second POST and 204 to every other.
\<close>

definition empty_db :: database where
  "empty_db = \<lparr>keyword_rows = [], keywords_seq = 0, seen_papers = [], seen_papers_seq = 0\<rparr>"

definition start_world :: "database \<Rightarrow> world" where
  "start_world d = \<lparr>db = d, clock = 0, outbox = [], console = []\<rparr>"

definition bib_a :: bib where
  "bib_a = \<lparr>bib_title = Some ''Graph attention'', bib_url = Some ''http://a'',
            bib_author = Some [''A. Author'', ''B. Writer''], bib_year = Some ''2024''\<rparr>"

definition bib_b :: bib where
  "bib_b = \<lparr>bib_title = Some ''Message passing'', bib_url = Some ''http://b'',
            bib_author = None, bib_year = None\<rparr>"

definition bib_c :: bib where
  "bib_c = \<lparr>bib_title = Some ''  Sparse transformers'', bib_url = None,
            bib_author = Some [''C. Scholar''], bib_year = Some ''2023''\<rparr>"

definition papers_abc :: "paper list" where
  "papers_abc = [to_paper bib_a, to_paper bib_b, to_paper bib_c]"

definition sample_db :: database where
  "sample_db =
     \<lparr>keyword_rows =
        [\<lparr>k_id = 1, k_term = ''rl'', k_created_at = ''2024-04-30T08:00:00+00:00''\<rparr>,
         \<lparr>k_id = 2, k_term = ''bert'', k_created_at = ''2024-04-30T09:00:00+00:00''\<rparr>,
         \<lparr>k_id = 3, k_term = ''offline'', k_created_at = ''2024-04-30T10:00:00+00:00''\<rparr>],
      keywords_seq = 3, seen_papers = [], seen_papers_seq = 0\<rparr>"

definition watch_env :: "(nat \<Rightarrow> post_result) \<Rightarrow> env" where
  "watch_env answers =
     \<lparr>DISCORD_WEBHOOK_URL = ''https://discord.test/hook'', PER_KEYWORD_LIMIT = 10,
      sha256 = sample_digest,
      search_pubs = (\<lambda>t kw. if kw = ''offline'' then Inl (ScholarlyError ''unreachable'')
                             else Inr [Inr bib_a, Inr bib_b, Inr bib_c]),
      requests_post = (\<lambda>t u content. answers t),
      utcnow = (\<lambda>t. ''2024-05-01T12:00:00+00:00'')\<rparr>"

definition bert_db :: database where
  "bert_db =
     \<lparr>keyword_rows =
        [\<lparr>k_id = 1, k_term = ''bert'', k_created_at = ''2024-04-30T09:00:00+00:00''\<rparr>],
      keywords_seq = 1, seen_papers = [], seen_papers_seq = 0\<rparr>"

definition second_post_fails :: "nat \<Rightarrow> post_result" where
  "second_post_fails t = (if t = 4 then Response 429 else Response 204)"

definition always_accepts :: "nat \<Rightarrow> post_result" where
  "always_accepts t = Response 204"

text \<open>
  \<open>offline_rl_db\<close> has the keywords \<open>offline\<close> and \<open>rl\<close>. In a cycle on it that
  starts at clock 0 the search for \<open>offline\<close> is call 0 and the search for \<open>rl\<close>
  call 1; the time stamp and the POST of the first candidate of \<open>rl\<close> are calls 2 and
  3, those of its second candidate calls 4 and 5. \<open>sixth_call_fails\<close> answers 429 to
  that second POST. \<open>all_whitespace\<close> holds every character below U+0100 that
  \<open>str.isspace\<close> accepts.
\<close>

definition offline_rl_db :: database where
  "offline_rl_db =
     \<lparr>keyword_rows =
        [\<lparr>k_id = 1, k_term = ''offline'', k_created_at = ''2024-04-30T08:00:00+00:00''\<rparr>,
         \<lparr>k_id = 2, k_term = ''rl'', k_created_at = ''2024-04-30T09:00:00+00:00''\<rparr>],
      keywords_seq = 2, seen_papers = [], seen_papers_seq = 0\<rparr>"

definition sixth_call_fails :: "nat \<Rightarrow> post_result" where
  "sixth_call_fails t = (if t = 5 then Response 429 else Response 204)"


section \<open>Properties of the fingerprint\<close>

lemma length_hex_of: "length (hex_of k n) = k"
  by (induction k arbitrary: n) auto

lemma hex_digit_inj:
  assumes "a < 16" "b < 16" "hex_digit a = hex_digit b" shows "a = b"
proof -
  have "of_char (hex_digit a) = (of_char (hex_digit b) :: nat)" using assms(3) by simp
  then show ?thesis using assms(1,2)
    by (auto simp: hex_digit_def split: if_splits)
qed

lemma hex_of_inj: "hex_of k n = hex_of k m \<Longrightarrow> n mod 16 ^ k = m mod 16 ^ k"
proof (induction k arbitrary: n m)
  case 0
  then show ?case by simp
next
  case (Suc k)
  from Suc.prems have a: "hex_of k (n div 16) = hex_of k (m div 16)"
    and b: "hex_digit (n mod 16) = hex_digit (m mod 16)"
    by (simp_all add: length_hex_of)
  from b have c: "n mod 16 = m mod 16" by (intro hex_digit_inj) simp_all
  from Suc.IH[OF a] have d: "n div 16 mod 16 ^ k = m div 16 mod 16 ^ k" .
  have "\<And>x::nat. x mod 16 ^ Suc k = 16 * (x div 16 mod 16 ^ k) + x mod 16"
    by (simp add: mod_mult2_eq)
  with c d show ?case by presburger
qed

lemma hexdigest_inj: "hexdigest d = hexdigest d' \<Longrightarrow> d = d'"
proof -
  assume "hexdigest d = hexdigest d'"
  then have "unat d mod 16 ^ 64 = unat d' mod 16 ^ 64"
    unfolding hexdigest_def by (rule hex_of_inj)
  moreover have "unat d < 16 ^ 64" "unat d' < 16 ^ 64"
    using unsigned_less[of d] unsigned_less[of d'] by simp_all
  ultimately have "unat d = unat d'" by simp
  then show ?thesis by (simp add: word_unat_eq_iff)
qed



lemma byte_of_nat_inj:
  "a < 256 \<Longrightarrow> b < 256 \<Longrightarrow> (of_nat a :: 8 word) = of_nat b \<Longrightarrow> a = b"
  by (simp add: word_of_nat_eq_iff take_bit_nat_eq_self)

lemma of_char_lt_256: "(of_char c :: nat) < 256"
  by (metis of_char_mod_256 mod_less_divisor zero_less_numeral)

lemma utf8_char_small:
  "of_char c < (128::nat) \<Longrightarrow> utf8_char c = [of_nat (of_char c)]"
  by (simp add: utf8_char_def)

lemma utf8_char_big:
  "\<not> of_char c < (128::nat) \<Longrightarrow>
   utf8_char c = [of_nat (192 + of_char c div 64), of_nat (128 + of_char c mod 64)]"
  by (simp add: utf8_char_def Let_def)

lemma utf8_char_inj:
  assumes "utf8_char c @ r = utf8_char c' @ r'"
  shows "c = c' \<and> r = r'"
proof -
  let ?n = "of_char c :: nat" and ?m = "of_char c' :: nat"
  have n: "?n < 256" and m: "?m < 256" by (rule of_char_lt_256)+
  have lead: "192 + k div 64 < 256" if "k < 256" for k :: nat using that by linarith
  have cont: "128 + k mod 64 < 256" for k :: nat
  proof -
    have "k mod 64 < 64" by simp
    then show ?thesis by linarith
  qed
  have eq: "?n = ?m \<and> r = r'"
  proof (cases "?n < 128")
    case True
    note n1 = this
    show ?thesis
    proof (cases "?m < 128")
      case True
      from assms have "(of_nat ?n :: 8 word) = of_nat ?m \<and> r = r'"
        by (simp only: utf8_char_small[OF n1] utf8_char_small[OF True]
              append_Cons append_Nil list.inject)
      with byte_of_nat_inj[OF n m] show ?thesis by blast
    next
      case False
      from assms have "(of_nat ?n :: 8 word) = of_nat (192 + ?m div 64)"
        by (simp only: utf8_char_small[OF n1] utf8_char_big[OF False]
              append_Cons append_Nil list.inject)
      with byte_of_nat_inj[OF n lead[OF m]] have "?n = 192 + ?m div 64" by blast
      with n1 show ?thesis by simp
    qed
  next
    case False
    note n1 = this
    show ?thesis
    proof (cases "?m < 128")
      case True
      from assms have "(of_nat (192 + ?n div 64) :: 8 word) = of_nat ?m"
        by (simp only: utf8_char_small[OF True] utf8_char_big[OF n1]
              append_Cons append_Nil list.inject)
      with byte_of_nat_inj[OF lead[OF n] m] have "192 + ?n div 64 = ?m" by blast
      with True show ?thesis by simp
    next
      case False
      from assms have
        "(of_nat (192 + ?n div 64) :: 8 word) = of_nat (192 + ?m div 64) \<and>
         (of_nat (128 + ?n mod 64) :: 8 word) = of_nat (128 + ?m mod 64) \<and> r = r'"
        by (simp only: utf8_char_big[OF n1] utf8_char_big[OF False]
              append_Cons append_Nil list.inject)
      then have a: "(of_nat (192 + ?n div 64) :: 8 word) = of_nat (192 + ?m div 64)"
        and b: "(of_nat (128 + ?n mod 64) :: 8 word) = of_nat (128 + ?m mod 64)"
        and r: "r = r'" by blast+
      from a have "192 + ?n div 64 = 192 + ?m div 64"
        by (rule byte_of_nat_inj[OF lead[OF n] lead[OF m]])
      then have d: "?n div 64 = ?m div 64" by simp
      from b have "128 + ?n mod 64 = 128 + ?m mod 64"
        by (rule byte_of_nat_inj[OF cont cont])
      then have e: "?n mod 64 = ?m mod 64" by simp
      have "?n = 64 * (?n div 64) + ?n mod 64" by simp
      also have "\<dots> = 64 * (?m div 64) + ?m mod 64" by (simp only: d e)
      also have "\<dots> = ?m" by simp
      finally have "?n = ?m" .
      with r show ?thesis by simp
    qed
  qed
  then show ?thesis by simp
qed

lemma utf8_char_nonempty: "utf8_char c \<noteq> []"
  by (simp add: utf8_char_def Let_def)

lemma encode_utf8_inj: "encode_utf8 s = encode_utf8 s' \<Longrightarrow> s = s'"
proof (induction s arbitrary: s')
  case Nil
  then show ?case by (cases s') (simp_all add: encode_utf8_def utf8_char_nonempty)
next
  case (Cons c s)
  show ?case
  proof (cases s')
    case Nil
    with Cons.prems show ?thesis by (simp add: encode_utf8_def utf8_char_nonempty)
  next
    case (Cons c' t)
    with Cons.prems have "utf8_char c @ encode_utf8 s = utf8_char c' @ encode_utf8 t"
      by (simp add: encode_utf8_def)
    then have "c = c'" "encode_utf8 s = encode_utf8 t" by (auto dest: utf8_char_inj)
    with Cons.IH Cons show ?thesis by simp
  qed
qed

lemma sep_split:
  "c \<notin> set x \<Longrightarrow> c \<notin> set x' \<Longrightarrow> x @ c # r = x' @ c # r' \<Longrightarrow> x = x' \<and> r = r'"
proof (induction x arbitrary: x')
  case Nil
  then show ?case by (cases x') auto
next
  case (Cons a x)
  then show ?case by (cases x') auto
qed










text \<open>
  Claim C6, as stated, fails: the separator may occur inside a field, and then two
  tuples whose stripped fields differ are joined to the same string. Whatever the digest
  function, title \<open>a|b\<close> with authors \<open>c\<close> and title \<open>a\<close> with authors
  \<open>b|c\<close> have the same fingerprint.
\<close>

theorem fingerprint_separation_counterexample:
  "strip ''a|b'' \<noteq> strip ''a'' \<and>
   (\<forall>H. fingerprint H ''a|b'' ''c'' ''2024'' ''u'' = fingerprint H ''a'' ''b|c'' ''2024'' ''u'')"
  by (simp add: fingerprint_def strip_def isspace_def)

lemma joined_fields_inj:
  assumes "CHR ''|'' \<notin> set t1 \<union> set a1 \<union> set y1"
    and "CHR ''|'' \<notin> set t2 \<union> set a2 \<union> set y2"
    and "join ''|'' [t1, a1, y1, u1] = join ''|'' [t2, a2, y2, u2]"
  shows "(t1, a1, y1, u1) = (t2, a2, y2, u2)"
proof -
  from assms(3) have e: "t1 @ CHR ''|'' # (a1 @ CHR ''|'' # (y1 @ CHR ''|'' # u1)) =
      t2 @ CHR ''|'' # (a2 @ CHR ''|'' # (y2 @ CHR ''|'' # u2))" by simp
  from assms(1,2) have n: "CHR ''|'' \<notin> set t1" "CHR ''|'' \<notin> set t2"
    "CHR ''|'' \<notin> set a1" "CHR ''|'' \<notin> set a2" "CHR ''|'' \<notin> set y1" "CHR ''|'' \<notin> set y2"
    by simp_all
  from sep_split[OF n(1,2) e] have t: "t1 = t2"
    and e2: "a1 @ CHR ''|'' # (y1 @ CHR ''|'' # u1) = a2 @ CHR ''|'' # (y2 @ CHR ''|'' # u2)"
    by blast+
  from sep_split[OF n(3,4) e2] have a: "a1 = a2"
    and e3: "y1 @ CHR ''|'' # u1 = y2 @ CHR ''|'' # u2" by blast+
  from sep_split[OF n(5,6) e3] have "y1 = y2" "u1 = u2" by blast+
  with t a show ?thesis by (simp only:)
qed

lemma fingerprint_eq_iff:
  "fingerprint H t1 a1 y1 u1 = fingerprint H t2 a2 y2 u2 \<longleftrightarrow>
     H (encode_utf8 (join ''|'' [strip t1, strip a1, strip y1, strip u1])) =
     H (encode_utf8 (join ''|'' [strip t2, strip a2, strip y2, strip u2]))"
proof
  assume "fingerprint H t1 a1 y1 u1 = fingerprint H t2 a2 y2 u2"
  then have "hexdigest (H (encode_utf8 (join ''|'' [strip t1, strip a1, strip y1, strip u1]))) =
     hexdigest (H (encode_utf8 (join ''|'' [strip t2, strip a2, strip y2, strip u2])))"
    by (simp add: fingerprint_def)
  then show "H (encode_utf8 (join ''|'' [strip t1, strip a1, strip y1, strip u1])) =
     H (encode_utf8 (join ''|'' [strip t2, strip a2, strip y2, strip u2]))"
    by (rule hexdigest_inj)
next
  assume "H (encode_utf8 (join ''|'' [strip t1, strip a1, strip y1, strip u1])) =
     H (encode_utf8 (join ''|'' [strip t2, strip a2, strip y2, strip u2]))"
  then show "fingerprint H t1 a1 y1 u1 = fingerprint H t2 a2 y2 u2"
    by (simp add: fingerprint_def)
qed

text \<open>
  Claim C6, amended. When the stripped title, authors and year of both tuples are free
  of \<open>|\<close> and some stripped field differs, the two messages given to SHA-256
  differ, and the fingerprints are equal exactly when SHA-256 gives both messages the
  same digest.
\<close>

theorem fingerprint_separation_amended:
  assumes "CHR ''|'' \<notin> set (strip t1) \<union> set (strip a1) \<union> set (strip y1)"
    and "CHR ''|'' \<notin> set (strip t2) \<union> set (strip a2) \<union> set (strip y2)"
    and "(strip t1, strip a1, strip y1, strip u1) \<noteq> (strip t2, strip a2, strip y2, strip u2)"
  shows "encode_utf8 (join ''|'' [strip t1, strip a1, strip y1, strip u1]) \<noteq>
           encode_utf8 (join ''|'' [strip t2, strip a2, strip y2, strip u2])
         \<and> (fingerprint H t1 a1 y1 u1 = fingerprint H t2 a2 y2 u2 \<longleftrightarrow>
              H (encode_utf8 (join ''|'' [strip t1, strip a1, strip y1, strip u1])) =
              H (encode_utf8 (join ''|'' [strip t2, strip a2, strip y2, strip u2])))"
proof -
  have "join ''|'' [strip t1, strip a1, strip y1, strip u1] \<noteq>
        join ''|'' [strip t2, strip a2, strip y2, strip u2]"
    using joined_fields_inj[OF assms(1,2)] assms(3) by blast
  then have "encode_utf8 (join ''|'' [strip t1, strip a1, strip y1, strip u1]) \<noteq>
           encode_utf8 (join ''|'' [strip t2, strip a2, strip y2, strip u2])"
    using encode_utf8_inj by blast
  with fingerprint_eq_iff[of H t1 a1 y1 u1 t2 a2 y2 u2] show ?thesis by blast
qed

theorem fingerprint_separation_amended_witness:
  "CHR ''|'' \<notin> set (strip ''Deep nets '') \<union> set (strip ''A. Author'') \<union> set (strip ''2024'') \<and>
   CHR ''|'' \<notin> set (strip ''Deep sets'') \<union> set (strip ''A. Author'') \<union> set (strip ''2024'') \<and>
   (strip ''Deep nets '', strip ''A. Author'', strip ''2024'', strip ''http://x'') \<noteq>
     (strip ''Deep sets'', strip ''A. Author'', strip ''2024'', strip ''http://x'') \<and>
   encode_utf8 (join ''|'' [strip ''Deep nets '', strip ''A. Author'', strip ''2024'',
       strip ''http://x'']) \<noteq>
     encode_utf8 (join ''|'' [strip ''Deep sets'', strip ''A. Author'', strip ''2024'',
       strip ''http://x''])"
proof -
  have h1: "CHR ''|'' \<notin> set (strip ''Deep nets '') \<union> set (strip ''A. Author'') \<union> set (strip ''2024'')"
    by (simp add: strip_def isspace_def)
  have h2: "CHR ''|'' \<notin> set (strip ''Deep sets'') \<union> set (strip ''A. Author'') \<union> set (strip ''2024'')"
    by (simp add: strip_def isspace_def)
  have h3: "(strip ''Deep nets '', strip ''A. Author'', strip ''2024'', strip ''http://x'') \<noteq>
     (strip ''Deep sets'', strip ''A. Author'', strip ''2024'', strip ''http://x'')"
    by (simp add: strip_def isspace_def)
  from fingerprint_separation_amended[OF h1 h2 h3, of sample_digest] h1 h2 h3
  show ?thesis by blast
qed

section \<open>Evaluation of the sample inputs\<close>

lemma sample_fingerprints_distinct:
  "fingerprint sample_digest ''Graph attention'' ''A. Author, B. Writer'' ''2024'' ''http://a'' \<noteq>
   fingerprint sample_digest ''Message passing'' [] [] ''http://b''"
  "fingerprint sample_digest ''Graph attention'' ''A. Author, B. Writer'' ''2024'' ''http://a'' \<noteq>
   fingerprint sample_digest ''  Sparse transformers'' ''C. Scholar'' ''2023'' []"
  "fingerprint sample_digest ''Message passing'' [] [] ''http://b'' \<noteq>
   fingerprint sample_digest ''  Sparse transformers'' ''C. Scholar'' ''2023'' []"
  by (simp_all add: fingerprint_eq_iff sample_digest_def strip_def isspace_def encode_utf8_def
        utf8_char_def)

lemma sample_papers:
  "to_paper bib_a = \<lparr>title = ''Graph attention'', url = ''http://a'',
                       authors = ''A. Author, B. Writer'', year = ''2024''\<rparr>"
  "to_paper bib_b = \<lparr>title = ''Message passing'', url = ''http://b'', authors = [], year = []\<rparr>"
  "to_paper bib_c = \<lparr>title = ''  Sparse transformers'', url = [], authors = ''C. Scholar'',
                       year = ''2023''\<rparr>"
  by (simp_all add: to_paper_def get_or_def bib_a_def bib_b_def bib_c_def)

lemma fetch_loop_sample:
  "fetch_loop 10 [Inr bib_a, Inr bib_b, Inr bib_c] [] = Inr papers_abc"
  by (simp add: eval_nat_numeral papers_abc_def)

lemma sorted_terms: "sort (map k_term (keyword_rows sample_db)) = [''bert'', ''offline'', ''rl'']"
  by (simp add: sample_db_def)

lemmas eval_defs = watch_env_def second_post_fails_def start_world_def sample_db_def bert_db_def
  insert_seen_paper_def seen_def next_rowid_def send_to_discord_def release_def
  sample_papers Let_def claim_def
  fetch_scholar_results_def process_keyword_def papers_abc_def fetch_loop_sample
  sample_fingerprints_distinct error_line_def print_line_def

section \<open>Properties of the result store\<close>

lemma release_twice: "release (release d kw fp) kw fp = release d kw fp"
  by (simp add: release_def)

lemma release_absent: "\<not> seen d kw fp \<Longrightarrow> release d kw fp = d"
proof -
  assume "\<not> seen d kw fp"
  then have "filter (\<lambda>r. \<not> (sp_kw_term r = kw \<and> sp_fingerprint r = fp)) (seen_papers d) =
      seen_papers d"
    by (auto simp: seen_def list_ex_iff intro: filter_True)
  then show ?thesis by (simp add: release_def)
qed

lemma not_seen_release: "\<not> seen (release d kw fp) kw fp"
  by (simp add: seen_def release_def list_ex_iff)

lemma seen_release_other:
  "(kw', fp') \<noteq> (kw, fp) \<Longrightarrow> seen (release d kw fp) kw' fp' = seen d kw' fp'"
  by (auto simp: seen_def release_def list_ex_iff)

lemma claim_absent:
  "\<not> seen d kw fp \<Longrightarrow> fst (claim d kw fp p now) = Claimed"
  by (simp add: claim_def insert_seen_paper_def Let_def)

lemma claim_present:
  "seen d kw fp \<Longrightarrow> claim d kw fp p now = (AlreadySeen, d)"
  by (simp add: claim_def insert_seen_paper_def)

lemma seen_after_claim: "seen (snd (claim d kw fp p now)) kw fp"
  by (simp add: claim_def insert_seen_paper_def Let_def seen_def)

text \<open>
  Claim C7. A second release of a pair changes nothing more than the first; releasing a
  pair that has no row leaves the database as it is; after a release the pair has no
  row, every other pair is seen exactly as before, and the next claim of the pair
  returns \<open>Claimed\<close>.
\<close>

theorem release_idempotent_reenabling:
  "release (release d kw fp) kw fp = release d kw fp
   \<and> (\<not> seen d kw fp \<longrightarrow> release d kw fp = d)
   \<and> \<not> seen (release d kw fp) kw fp
   \<and> ((kw', fp') \<noteq> (kw, fp) \<longrightarrow> seen (release d kw fp) kw' fp' = seen d kw' fp')
   \<and> fst (claim (release d kw fp) kw fp p now) = Claimed"
  using release_twice release_absent not_seen_release seen_release_other
    claim_absent[OF not_seen_release] by blast

theorem release_idempotent_reenabling_witness:
  "\<not> seen empty_db ''gnn'' ''f1''
   \<and> release empty_db ''gnn'' ''f1'' = empty_db
   \<and> (''bert'', ''f1'') \<noteq> (''gnn'', ''f1'')
   \<and> seen (release (snd (claim empty_db ''bert'' ''f1'' (to_paper bib_a) ''t1'')) ''gnn'' ''f1'')
        ''bert'' ''f1''"
proof -
  have n0: "\<not> seen empty_db ''gnn'' ''f1''" by (simp add: seen_def empty_db_def)
  have d: "(''bert'', ''f1'') \<noteq> (''gnn'', ''f1'')" by simp
  from release_idempotent_reenabling[of empty_db "''gnn''" "''f1''"] n0
  have a: "release empty_db ''gnn'' ''f1'' = empty_db" by blast
  from release_idempotent_reenabling[of "snd (claim empty_db ''bert'' ''f1'' (to_paper bib_a) ''t1'')"
      "''gnn''" "''f1''" "''bert''" "''f1''"] d
    seen_after_claim[of empty_db "''bert''" "''f1''" "to_paper bib_a" "''t1''"]
  have "seen (release (snd (claim empty_db ''bert'' ''f1'' (to_paper bib_a) ''t1'')) ''gnn'' ''f1'')
        ''bert'' ''f1''" by blast
  with n0 a d show ?thesis by blast
qed

lemma claims_present:
  "seen d kw fp \<Longrightarrow> claims d kw fp cs = (replicate (length cs) AlreadySeen, d)"
  by (induction cs) (simp_all add: claim_present)

lemma claims_absent:
  assumes "\<not> seen d kw fp"
  shows "claims d kw fp (c # cs) =
    (Claimed # replicate (length cs) AlreadySeen, snd (claim d kw fp (fst c) (snd c)))"
proof -
  obtain d1 where c: "claim d kw fp (fst c) (snd c) = (Claimed, d1)"
    using claim_absent[OF assms, of "fst c" "snd c"] by (cases "claim d kw fp (fst c) (snd c)") simp
  then have "seen d1 kw fp" using seen_after_claim[of d kw fp "fst c" "snd c"] by simp
  from claims_present[OF this, of cs] c show ?thesis by simp
qed

lemma one_row_after_claim:
  assumes "\<not> seen d kw fp"
  shows "length (filter (\<lambda>r. sp_kw_term r = kw \<and> sp_fingerprint r = fp)
           (seen_papers (snd (claim d kw fp p now)))) = 1"
proof -
  from assms have "filter (\<lambda>r. sp_kw_term r = kw \<and> sp_fingerprint r = fp) (seen_papers d) = []"
    by (auto simp: seen_def list_ex_iff filter_empty_conv)
  with assms show ?thesis
    by (simp add: claim_def insert_seen_paper_def Let_def)
qed

lemma unique_pairs_insert:
  "unique_pairs d \<Longrightarrow> insert_seen_paper d kw fp p now = Inr d' \<Longrightarrow> unique_pairs d'"
  by (auto simp: insert_seen_paper_def Let_def unique_pairs_def seen_def list_ex_iff
        split: if_splits)

lemma unique_pairs_claim: "unique_pairs d \<Longrightarrow> unique_pairs (snd (claim d kw fp p now))"
  by (auto simp: claim_def split: sum.splits dest: unique_pairs_insert)

lemma unique_pairs_release: "unique_pairs d \<Longrightarrow> unique_pairs (release d kw fp)"
  by (simp add: unique_pairs_def release_def distinct_map_filter)

lemma unique_pairs_delete_keyword: "unique_pairs d \<Longrightarrow> unique_pairs (delete_keyword i d)"
  by (simp add: unique_pairs_def delete_keyword_def distinct_map_filter split: option.splits)

lemma seen_papers_add_keyword: "seen_papers (db (add_keyword e raw w)) = seen_papers (db w)"
  by (simp add: add_keyword_def Let_def)

lemma db_send_to_discord: "db (snd (send_to_discord e kw p w)) = db w"
  by (simp add: send_to_discord_def Let_def split: post_result.splits)

lemma db_fetch: "db (snd (fetch_scholar_results e kw n w)) = db w"
  by (simp add: fetch_scholar_results_def Let_def split: sum.splits)

lemma unique_pairs_process_rows:
  "unique_pairs (db w) \<Longrightarrow> unique_pairs (db (snd (process_rows e kw rows w n)))"
proof (induction rows arbitrary: w n)
  case Nil
  then show ?case by simp
next
  case (Cons p rows)
  let ?fp = "fingerprint (sha256 e) (title p) (authors p) (year p) (url p)"
  let ?w1 = "w\<lparr>clock := Suc (clock w)\<rparr>"
  show ?case
  proof (cases "insert_seen_paper (db ?w1) kw ?fp p (utcnow e (clock w))")
    case (Inl a)
    with Cons.IH[of ?w1 n] Cons.prems show ?thesis by (simp add: Let_def)
  next
    case (Inr d)
    with Cons.prems have u: "unique_pairs d" by (auto dest: unique_pairs_insert)
    obtain r w2 where s: "send_to_discord e kw p (?w1\<lparr>db := d\<rparr>) = (r, w2)"
      by (cases "send_to_discord e kw p (?w1\<lparr>db := d\<rparr>)")
    with db_send_to_discord[of e kw p "?w1\<lparr>db := d\<rparr>"] have d2: "db w2 = d" by simp
    show ?thesis
    proof (cases r)
      case (Inl err)
      with Inr s d2 u show ?thesis by (simp add: Let_def unique_pairs_release)
    next
      case (Inr u')
      with \<open>insert_seen_paper (db ?w1) kw ?fp p (utcnow e (clock w)) = Inr d\<close> s
        Cons.IH[of w2 "n + 1"] d2 u
      show ?thesis by (simp add: Let_def)
    qed
  qed
qed

lemma unique_pairs_process_keyword:
  "unique_pairs (db w) \<Longrightarrow> unique_pairs (db (snd (process_keyword e kw w)))"
proof -
  assume u: "unique_pairs (db w)"
  obtain r w1 where f: "fetch_scholar_results e kw (PER_KEYWORD_LIMIT e) w = (r, w1)"
    by (cases "fetch_scholar_results e kw (PER_KEYWORD_LIMIT e) w")
  with db_fetch[of e kw "PER_KEYWORD_LIMIT e" w] u have u1: "unique_pairs (db w1)" by simp
  show ?thesis
  proof (cases r)
    case (Inl err)
    with f u1 show ?thesis by (simp add: process_keyword_def)
  next
    case (Inr rows)
    with f unique_pairs_process_rows[OF u1, of e kw rows 0] show ?thesis
      by (simp add: process_keyword_def)
  qed
qed

lemma db_print_line: "db (print_line l w) = db w"
  by (simp add: print_line_def)

lemma unique_pairs_run_terms:
  "unique_pairs (db w) \<Longrightarrow> unique_pairs (db (snd (run_terms e ks w t)))"
proof (induction ks arbitrary: w t)
  case Nil
  then show ?case by simp
next
  case (Cons k ks)
  obtain r w1 where p: "process_keyword e k w = (r, w1)" by (cases "process_keyword e k w")
  with unique_pairs_process_keyword[OF Cons.prems, of e k] have u1: "unique_pairs (db w1)"
    by simp
  show ?case
  proof (cases r)
    case (Inl err)
    with p Cons.IH[of "print_line (error_line k err) w1" t] u1 show ?thesis
      by (simp add: db_print_line)
  next
    case (Inr n)
    with p Cons.IH[of w1 "t + n"] u1 show ?thesis by simp
  qed
qed

lemma unique_pairs_run_cycle:
  "unique_pairs (db w) \<Longrightarrow> unique_pairs (db (snd (run_cycle e w)))"
proof -
  assume u: "unique_pairs (db w)"
  obtain t w1 where r: "run_terms e (sort (map k_term (keyword_rows (db w)))) w 0 = (t, w1)"
    by (cases "run_terms e (sort (map k_term (keyword_rows (db w)))) w 0")
  with unique_pairs_run_terms[OF u, of e "sort (map k_term (keyword_rows (db w)))" 0]
  have "unique_pairs (db w1)" by simp
  with r show ?thesis by (simp add: run_cycle_def Let_def db_print_line)
qed

text \<open>
  Claim C2. In a run of claims on one pair with no release in between, started where the
  pair has no row, the first claim returns \<open>Claimed\<close> and inserts the only row of
  the pair, and every later claim returns \<open>AlreadySeen\<close> and leaves the database as
  the first claim left it; started where the pair has a row, every claim returns
  \<open>AlreadySeen\<close> and changes nothing. No two rows of \<open>seen_papers\<close> share the
  pair (kw\_term, fingerprint): claim, release, \<open>delete_keyword\<close>, \<open>add_keyword\<close>,
  \<open>process_keyword\<close> and \<open>run_cycle\<close> keep it so.
\<close>

theorem at_most_once_claim:
  assumes "unique_pairs (db w)"
  shows "(\<not> seen (db w) kw fp \<longrightarrow>
            fst (claims (db w) kw fp (c # cs)) = Claimed # replicate (length cs) AlreadySeen
          \<and> snd (claims (db w) kw fp (c # cs)) = snd (claim (db w) kw fp (fst c) (snd c))
          \<and> length (filter (\<lambda>r. sp_kw_term r = kw \<and> sp_fingerprint r = fp)
               (seen_papers (snd (claims (db w) kw fp (c # cs))))) = 1)
       \<and> (seen (db w) kw fp \<longrightarrow>
            claims (db w) kw fp cs = (replicate (length cs) AlreadySeen, db w))
       \<and> unique_pairs (snd (claim (db w) kw fp p now))
       \<and> unique_pairs (release (db w) kw fp)
       \<and> unique_pairs (delete_keyword i (db w))
       \<and> unique_pairs (db (add_keyword e raw w))
       \<and> unique_pairs (db (snd (process_keyword e kw w)))
       \<and> unique_pairs (db (snd (run_cycle e w)))"
proof -
  have a: "\<not> seen (db w) kw fp \<longrightarrow>
            fst (claims (db w) kw fp (c # cs)) = Claimed # replicate (length cs) AlreadySeen
          \<and> snd (claims (db w) kw fp (c # cs)) = snd (claim (db w) kw fp (fst c) (snd c))
          \<and> length (filter (\<lambda>r. sp_kw_term r = kw \<and> sp_fingerprint r = fp)
               (seen_papers (snd (claims (db w) kw fp (c # cs))))) = 1"
    using claims_absent[of "db w" kw fp c cs] one_row_after_claim[of "db w" kw fp "fst c" "snd c"]
    by simp
  have b: "seen (db w) kw fp \<longrightarrow>
            claims (db w) kw fp cs = (replicate (length cs) AlreadySeen, db w)"
    using claims_present by blast
  have "unique_pairs (db (add_keyword e raw w))"
    using assms by (simp add: unique_pairs_def seen_papers_add_keyword)
  with a b unique_pairs_claim[OF assms] unique_pairs_release[OF assms]
    unique_pairs_delete_keyword[OF assms] unique_pairs_process_keyword[OF assms]
    unique_pairs_run_cycle[OF assms]
  show ?thesis by blast
qed

theorem at_most_once_claim_witness:
  "unique_pairs (db (start_world empty_db))
   \<and> \<not> seen (db (start_world empty_db)) ''gnn'' ''f1''
   \<and> fst (claims (db (start_world empty_db)) ''gnn'' ''f1''
        [(to_paper bib_a, ''t1''), (to_paper bib_a, ''t2''), (to_paper bib_b, ''t3'')]) =
      [Claimed, AlreadySeen, AlreadySeen]
   \<and> seen (db (start_world (snd (claim empty_db ''gnn'' ''f1'' (to_paper bib_a) ''t1'')))) ''gnn'' ''f1''
   \<and> fst (claims (db (start_world (snd (claim empty_db ''gnn'' ''f1'' (to_paper bib_a) ''t1''))))
         ''gnn'' ''f1'' [(to_paper bib_a, ''t2'')]) = [AlreadySeen]"
proof -
  let ?w1 = "start_world (snd (claim empty_db ''gnn'' ''f1'' (to_paper bib_a) ''t1''))"
  have u0: "unique_pairs (db (start_world empty_db))"
    by (simp add: unique_pairs_def start_world_def empty_db_def)
  have n0: "\<not> seen (db (start_world empty_db)) ''gnn'' ''f1''"
    by (simp add: seen_def start_world_def empty_db_def)
  have u1: "unique_pairs (db ?w1)"
    by (simp add: unique_pairs_def start_world_def empty_db_def claim_def insert_seen_paper_def
          seen_def Let_def)
  have s1: "seen (db ?w1) ''gnn'' ''f1''"
    by (simp add: start_world_def seen_after_claim)
  from at_most_once_claim[OF u0, of "''gnn''" "''f1''" "(to_paper bib_a, ''t1'')"
      "[(to_paper bib_a, ''t2''), (to_paper bib_b, ''t3'')]"] n0
  have a: "fst (claims (db (start_world empty_db)) ''gnn'' ''f1''
        [(to_paper bib_a, ''t1''), (to_paper bib_a, ''t2''), (to_paper bib_b, ''t3'')]) =
      [Claimed, AlreadySeen, AlreadySeen]"
    by (simp add: numeral_2_eq_2)
  from at_most_once_claim[OF u1, of "''gnn''" "''f1''" _ "[(to_paper bib_a, ''t2'')]"] s1
  have b: "fst (claims (db ?w1) ''gnn'' ''f1'' [(to_paper bib_a, ''t2'')]) = [AlreadySeen]"
    by simp
  from u0 n0 a s1 b show ?thesis by blast
qed

section \<open>Properties of the control surface and of the notifier\<close>

lemma find_Some_term:
  "find P xs = Some r \<Longrightarrow> r \<in> set xs \<and> P r"
  by (induction xs) (auto split: if_splits)

lemma delete_keyword_found:
  assumes "find (\<lambda>x. k_id x = i) (keyword_rows d) = Some r"
  shows "delete_keyword i d =
    d\<lparr>keyword_rows := filter (\<lambda>x. k_id x \<noteq> i) (keyword_rows d),
      seen_papers := filter (\<lambda>x. sp_kw_term x \<noteq> k_term r) (seen_papers d)\<rparr>"
  using assms by (simp add: delete_keyword_def)

lemma delete_keyword_no_id:
  "\<not> list_ex (\<lambda>x. k_id x = i) (keyword_rows (delete_keyword i d))"
proof (cases "find (\<lambda>x. k_id x = i) (keyword_rows d)")
  case None
  then have "delete_keyword i d = d" by (simp add: delete_keyword_def)
  moreover from None have "\<not> list_ex (\<lambda>x. k_id x = i) (keyword_rows d)"
    by (simp add: find_None_iff list_ex_iff)
  ultimately show ?thesis by simp
next
  case (Some r)
  then show ?thesis by (simp add: delete_keyword_def list_ex_iff)
qed

lemma delete_keyword_no_seen:
  assumes "find (\<lambda>x. k_id x = i) (keyword_rows d) = Some r"
  shows "\<not> list_ex (\<lambda>x. sp_kw_term x = k_term r) (seen_papers (delete_keyword i d))"
  by (simp add: delete_keyword_found[OF assms] list_ex_iff)

lemma delete_keyword_not_seen:
  assumes "find (\<lambda>x. k_id x = i) (keyword_rows d) = Some r"
  shows "\<not> seen (delete_keyword i d) (k_term r) fp"
  using delete_keyword_no_seen[OF assms] by (auto simp: seen_def list_ex_iff)

lemma delete_keyword_other_rows:
  assumes "find (\<lambda>x. k_id x = i) (keyword_rows d) = Some r" and "kw \<noteq> k_term r"
  shows "filter (\<lambda>x. sp_kw_term x = kw) (seen_papers (delete_keyword i d)) =
         filter (\<lambda>x. sp_kw_term x = kw) (seen_papers d)"
  using assms(2) by (auto simp: delete_keyword_found[OF assms(1)] intro: filter_cong)

lemma delete_keyword_no_term:
  assumes "find (\<lambda>x. k_id x = i) (keyword_rows d) = Some r" and "unique_terms d"
  shows "\<not> list_ex (\<lambda>x. k_term x = k_term r) (keyword_rows (delete_keyword i d))"
proof -
  from find_Some_term[OF assms(1)] have r: "r \<in> set (keyword_rows d)" "k_id r = i" by simp_all
  have "x = r" if "x \<in> set (keyword_rows d)" "k_term x = k_term r" for x
    using assms(2) that r(1) by (auto simp: unique_terms_def distinct_map inj_on_def)
  with r(2) show ?thesis
    by (auto simp: delete_keyword_found[OF assms(1)] list_ex_iff)
qed

lemma add_keyword_term:
  "strip t = t \<Longrightarrow> t \<noteq> [] \<Longrightarrow> list_ex (\<lambda>x. k_term x = t) (keyword_rows (db (add_keyword e t w)))"
  by (simp add: add_keyword_def Let_def)

lemma seen_add_keyword: "seen (db (add_keyword e raw w)) kw fp = seen (db w) kw fp"
  by (simp add: seen_def seen_papers_add_keyword)

lemma unique_terms_add_keyword:
  "unique_terms (db w) \<Longrightarrow> unique_terms (db (add_keyword e raw w))"
  by (auto simp: add_keyword_def Let_def unique_terms_def list_ex_iff)

lemma unique_terms_delete_keyword:
  "unique_terms d \<Longrightarrow> unique_terms (delete_keyword i d)"
  by (simp add: unique_terms_def delete_keyword_def distinct_map_filter split: option.splits)

text \<open>
  Claim C8. Deleting a keyword that exists removes its row and every row of
  \<open>seen_papers\<close> whose term is that keyword, and leaves the rows of the other terms.
  After the same term is added again, a claim for any fingerprint under that term
  returns \<open>Claimed\<close>.
\<close>

theorem cascade_delete:
  assumes "find (\<lambda>x. k_id x = i) (keyword_rows (db w)) = Some r"
  shows "\<not> list_ex (\<lambda>x. k_id x = i) (keyword_rows (delete_keyword i (db w)))
       \<and> \<not> list_ex (\<lambda>x. sp_kw_term x = k_term r) (seen_papers (delete_keyword i (db w)))
       \<and> (unique_terms (db w) \<longrightarrow>
            \<not> list_ex (\<lambda>x. k_term x = k_term r) (keyword_rows (delete_keyword i (db w))))
       \<and> (kw \<noteq> k_term r \<longrightarrow>
            filter (\<lambda>x. sp_kw_term x = kw) (seen_papers (delete_keyword i (db w))) =
            filter (\<lambda>x. sp_kw_term x = kw) (seen_papers (db w)))
       \<and> (strip (k_term r) = k_term r \<and> k_term r \<noteq> [] \<longrightarrow>
            list_ex (\<lambda>x. k_term x = k_term r)
              (keyword_rows (db (add_keyword e (k_term r) (w\<lparr>db := delete_keyword i (db w)\<rparr>)))))
       \<and> fst (claim (db (add_keyword e (k_term r) (w\<lparr>db := delete_keyword i (db w)\<rparr>)))
                 (k_term r) fp p now) = Claimed"
proof -
  have "\<not> seen (db (add_keyword e (k_term r) (w\<lparr>db := delete_keyword i (db w)\<rparr>))) (k_term r) fp"
    using delete_keyword_not_seen[OF assms] by (simp add: seen_add_keyword)
  then have "fst (claim (db (add_keyword e (k_term r) (w\<lparr>db := delete_keyword i (db w)\<rparr>)))
                 (k_term r) fp p now) = Claimed"
    by (rule claim_absent)
  with delete_keyword_no_id[of i "db w"] delete_keyword_no_seen[OF assms]
    delete_keyword_no_term[OF assms] delete_keyword_other_rows[OF assms, of kw]
    add_keyword_term[of "k_term r" e "w\<lparr>db := delete_keyword i (db w)\<rparr>"]
  show ?thesis by blast
qed

theorem cascade_delete_witness:
  "fst (run_cycle (watch_env always_accepts) (start_world bert_db)) = 3
   \<and> fst (run_cycle (watch_env always_accepts)
        (snd (run_cycle (watch_env always_accepts) (start_world bert_db)))) = 0
   \<and> unique_terms (db (snd (run_cycle (watch_env always_accepts) (start_world bert_db))))
   \<and> \<not> list_ex (\<lambda>x. sp_kw_term x = ''bert'')
        (seen_papers (delete_keyword 1
           (db (snd (run_cycle (watch_env always_accepts) (start_world bert_db))))))
   \<and> \<not> list_ex (\<lambda>x. k_term x = ''bert'')
        (keyword_rows (delete_keyword 1
           (db (snd (run_cycle (watch_env always_accepts) (start_world bert_db))))))
   \<and> list_ex (\<lambda>x. k_term x = ''bert'')
        (keyword_rows (db (add_keyword (watch_env always_accepts) ''bert''
          ((snd (run_cycle (watch_env always_accepts) (start_world bert_db)))
             \<lparr>db := delete_keyword 1
                (db (snd (run_cycle (watch_env always_accepts) (start_world bert_db))))\<rparr>))))
   \<and> fst (run_cycle (watch_env always_accepts)
        (add_keyword (watch_env always_accepts) ''bert''
          ((snd (run_cycle (watch_env always_accepts) (start_world bert_db)))
             \<lparr>db := delete_keyword 1
                (db (snd (run_cycle (watch_env always_accepts) (start_world bert_db))))\<rparr>))) = 3"
proof -
  let ?e = "watch_env always_accepts"
  let ?w1 = "snd (run_cycle ?e (start_world bert_db))"
  let ?r = "\<lparr>k_id = 1, k_term = ''bert'', k_created_at = ''2024-04-30T09:00:00+00:00''\<rparr>"
  note ev = run_cycle_def eval_defs always_accepts_def add_keyword_def delete_keyword_def
    strip_def isspace_def
  have c1: "fst (run_cycle ?e (start_world bert_db)) = 3" by (simp add: ev)
  have c2: "fst (run_cycle ?e ?w1) = 0" by (simp add: ev)
  have found: "find (\<lambda>x. k_id x = 1) (keyword_rows (db ?w1)) = Some ?r" by (simp add: ev)
  have ut: "unique_terms (db ?w1)" by (simp add: unique_terms_def ev)
  have st: "strip (k_term ?r) = k_term ?r \<and> k_term ?r \<noteq> []"
    by (simp add: strip_def isspace_def)
  have c3: "fst (run_cycle ?e (add_keyword ?e ''bert'' (?w1\<lparr>db := delete_keyword 1 (db ?w1)\<rparr>))) = 3"
    by (simp add: ev)
  note cd = cascade_delete[OF found, where e = "?e"]
  from cd have "\<not> list_ex (\<lambda>x. sp_kw_term x = k_term ?r) (seen_papers (delete_keyword 1 (db ?w1)))"
    by (rule conjunct2[THEN conjunct1])
  then have d: "\<not> list_ex (\<lambda>x. sp_kw_term x = ''bert'') (seen_papers (delete_keyword 1 (db ?w1)))"
    by simp
  from cd ut have "\<not> list_ex (\<lambda>x. k_term x = k_term ?r) (keyword_rows (delete_keyword 1 (db ?w1)))"
    by blast
  then have t: "\<not> list_ex (\<lambda>x. k_term x = ''bert'') (keyword_rows (delete_keyword 1 (db ?w1)))"
    by simp
  from cd st have "list_ex (\<lambda>x. k_term x = k_term ?r)
      (keyword_rows (db (add_keyword ?e (k_term ?r) (?w1\<lparr>db := delete_keyword 1 (db ?w1)\<rparr>))))"
    by blast
  then have a: "list_ex (\<lambda>x. k_term x = ''bert'')
      (keyword_rows (db (add_keyword ?e ''bert'' (?w1\<lparr>db := delete_keyword 1 (db ?w1)\<rparr>))))"
    by simp
  from c1 c2 ut d t a c3 show ?thesis by (intro conjI)
qed

lemma send_unconfigured:
  "DISCORD_WEBHOOK_URL e = [] \<Longrightarrow>
   send_to_discord e kw p w =
     (Inl (RuntimeError ''DISCORD_WEBHOOK_URL missing; set it in .env''), w)"
  by (simp add: send_to_discord_def)

lemma send_configured_outbox:
  "DISCORD_WEBHOOK_URL e \<noteq> [] \<Longrightarrow>
   outbox (snd (send_to_discord e kw p w)) =
     outbox w @ [(DISCORD_WEBHOOK_URL e, discord_content kw p)]"
  by (simp add: send_to_discord_def Let_def split: post_result.splits)

text \<open>
  Claim C9. With an empty webhook URL every call of \<open>send_to_discord\<close> raises the same
  \<open>RuntimeError\<close> and leaves the world untouched: no POST is attempted. With a URL, one
  POST is attempted, and its content names the keyword and has \<open>Untitled\<close>,
  \<open>Year n/a\<close> and \<open>Unknown authors\<close> in place of an empty title, year and authors.
\<close>

theorem notifier_contract:
  "(DISCORD_WEBHOOK_URL e = [] \<longrightarrow>
      send_to_discord e kw p w =
        (Inl (RuntimeError ''DISCORD_WEBHOOK_URL missing; set it in .env''), w))
   \<and> (DISCORD_WEBHOOK_URL e \<noteq> [] \<longrightarrow>
      outbox (snd (send_to_discord e kw p w)) =
        outbox w @
        [(DISCORD_WEBHOOK_URL e,
          ''**New paper found** for **'' @ kw @ ''**'' @ [CHR 0x0A] @
          ''**'' @ (if title p = [] then ''Untitled'' else title p) @ ''** ('' @
          (if year p = [] then ''Year n/a'' else year p) @ '')'' @ [CHR 0x0A] @
          ''*'' @ (if authors p = [] then ''Unknown authors'' else authors p) @ ''*'' @
          [CHR 0x0A] @ url p)])"
proof -
  have "discord_content kw p =
          ''**New paper found** for **'' @ kw @ ''**'' @ [CHR 0x0A] @
          ''**'' @ (if title p = [] then ''Untitled'' else title p) @ ''** ('' @
          (if year p = [] then ''Year n/a'' else year p) @ '')'' @ [CHR 0x0A] @
          ''*'' @ (if authors p = [] then ''Unknown authors'' else authors p) @ ''*'' @
          [CHR 0x0A] @ url p"
    by (simp add: discord_content_def py_or_def)
  with send_unconfigured[of e kw p w] send_configured_outbox[of e kw p w]
  show ?thesis by simp
qed

theorem notifier_contract_witness:
  "send_to_discord ((watch_env second_post_fails)\<lparr>DISCORD_WEBHOOK_URL := []\<rparr>) ''bert''
      (to_paper bib_b) (start_world bert_db) =
     (Inl (RuntimeError ''DISCORD_WEBHOOK_URL missing; set it in .env''), start_world bert_db)
   \<and> outbox (snd (send_to_discord (watch_env second_post_fails) ''bert'' (to_paper bib_b)
        (start_world bert_db))) =
     [(''https://discord.test/hook'',
       ''**New paper found** for **bert**'' @ [CHR 0x0A] @
       ''**Message passing** (Year n/a)'' @ [CHR 0x0A] @
       ''*Unknown authors*'' @ [CHR 0x0A] @ ''http://b'')]"
proof -
  have u: "DISCORD_WEBHOOK_URL ((watch_env second_post_fails)\<lparr>DISCORD_WEBHOOK_URL := []\<rparr>) = []"
    by simp
  have c: "DISCORD_WEBHOOK_URL (watch_env second_post_fails) \<noteq> []"
    by (simp add: watch_env_def)
  from notifier_contract[of "(watch_env second_post_fails)\<lparr>DISCORD_WEBHOOK_URL := []\<rparr>"
      "''bert''" "to_paper bib_b" "start_world bert_db"] u
  have a: "send_to_discord ((watch_env second_post_fails)\<lparr>DISCORD_WEBHOOK_URL := []\<rparr>) ''bert''
      (to_paper bib_b) (start_world bert_db) =
     (Inl (RuntimeError ''DISCORD_WEBHOOK_URL missing; set it in .env''), start_world bert_db)"
    by blast
  from notifier_contract[of "watch_env second_post_fails" "''bert''" "to_paper bib_b"
      "start_world bert_db"] c
  have "outbox (snd (send_to_discord (watch_env second_post_fails) ''bert'' (to_paper bib_b)
        (start_world bert_db))) =
        outbox (start_world bert_db) @
        [(DISCORD_WEBHOOK_URL (watch_env second_post_fails),
          ''**New paper found** for **'' @ ''bert'' @ ''**'' @ [CHR 0x0A] @
          ''**'' @ (if title (to_paper bib_b) = [] then ''Untitled'' else title (to_paper bib_b)) @ ''** ('' @
          (if year (to_paper bib_b) = [] then ''Year n/a'' else year (to_paper bib_b)) @ '')'' @ [CHR 0x0A] @
          ''*'' @ (if authors (to_paper bib_b) = [] then ''Unknown authors'' else authors (to_paper bib_b)) @ ''*'' @
          [CHR 0x0A] @ url (to_paper bib_b))]"
    by blast
  then have b: "outbox (snd (send_to_discord (watch_env second_post_fails) ''bert'' (to_paper bib_b)
        (start_world bert_db))) =
     [(''https://discord.test/hook'',
       ''**New paper found** for **bert**'' @ [CHR 0x0A] @
       ''**Message passing** (Year n/a)'' @ [CHR 0x0A] @
       ''*Unknown authors*'' @ [CHR 0x0A] @ ''http://b'')]"
    by (simp add: sample_papers watch_env_def start_world_def)
  from a b show ?thesis by (intro conjI)
qed

section \<open>Properties of the cycle\<close>

lemma run_terms_append:
  "run_terms e (xs @ ys) w t =
     (case run_terms e xs w t of (t1, w1) \<Rightarrow> run_terms e ys w1 t1)"
proof (induction xs arbitrary: w t)
  case Nil
  then show ?case by simp
next
  case (Cons k ks)
  obtain r w1 where p: "process_keyword e k w = (r, w1)" by (cases "process_keyword e k w")
  show ?case
  proof (cases r)
    case (Inl err)
    with p Cons.IH[of "print_line (error_line k err) w1" t] show ?thesis by simp
  next
    case (Inr n)
    with p Cons.IH[of w1 "t + n"] show ?thesis by simp
  qed
qed

lemma run_terms_acc:
  "run_terms e ks w t = (t + fst (run_terms e ks w 0), snd (run_terms e ks w 0))"
proof (induction ks arbitrary: w t)
  case Nil
  then show ?case by simp
next
  case (Cons k ks)
  obtain r w1 where p: "process_keyword e k w = (r, w1)" by (cases "process_keyword e k w")
  show ?case
  proof (cases r)
    case (Inl err)
    with p Cons.IH[of "print_line (error_line k err) w1" t] show ?thesis by simp
  next
    case (Inr n)
    with p Cons.IH[of w1 "t + n"] Cons.IH[of w1 n] show ?thesis by simp
  qed
qed

lemma process_rows_append:
  "process_rows e kw (xs @ ys) w n =
     (case process_rows e kw xs w n of
        (Inl err, w1) \<Rightarrow> (Inl err, w1)
      | (Inr m, w1) \<Rightarrow> process_rows e kw ys w1 m)"
proof (induction xs arbitrary: w n)
  case Nil
  then show ?case by simp
next
  case (Cons p xs)
  let ?fp = "fingerprint (sha256 e) (title p) (authors p) (year p) (url p)"
  let ?w1 = "w\<lparr>clock := Suc (clock w)\<rparr>"
  show ?case
  proof (cases "insert_seen_paper (db ?w1) kw ?fp p (utcnow e (clock w))")
    case (Inl a)
    with Cons.IH[of ?w1 n] show ?thesis by (simp add: Let_def)
  next
    case (Inr d)
    obtain r w2 where s: "send_to_discord e kw p (?w1\<lparr>db := d\<rparr>) = (r, w2)"
      by (cases "send_to_discord e kw p (?w1\<lparr>db := d\<rparr>)")
    show ?thesis
    proof (cases r)
      case (Inl err)
      with Inr s show ?thesis by (simp add: Let_def)
    next
      case (Inr u)
      with \<open>insert_seen_paper (db ?w1) kw ?fp p (utcnow e (clock w)) = Inr d\<close> s
        Cons.IH[of w2 "n + 1"]
      show ?thesis by (simp add: Let_def)
    qed
  qed
qed

lemma claim_Claimed_iff: "fst (claim d kw fp p now) = Claimed \<longleftrightarrow> \<not> seen d kw fp"
  by (simp add: claim_def insert_seen_paper_def Let_def)

lemma insert_eq_claim:
  "\<not> seen d kw fp \<Longrightarrow> insert_seen_paper d kw fp p now = Inr (snd (claim d kw fp p now))"
  by (simp add: claim_def insert_seen_paper_def Let_def)

lemma release_after_claim:
  assumes "\<not> seen d kw fp"
  shows "seen_papers (release (snd (claim d kw fp p now)) kw fp) = seen_papers d"
proof -
  from assms have "filter (\<lambda>r. \<not> (sp_kw_term r = kw \<and> sp_fingerprint r = fp)) (seen_papers d) =
      seen_papers d"
    by (auto simp: seen_def list_ex_iff intro: filter_True)
  with assms show ?thesis
    by (simp add: claim_def insert_seen_paper_def Let_def release_def)
qed

lemma process_rows_notify_failure:
  assumes claimed: "fst (claim (db w) kw (fingerprint (sha256 e) (title p) (authors p) (year p) (url p))
                      p (utcnow e (clock w))) = Claimed"
    and notify: "send_to_discord e kw p
        (w\<lparr>clock := Suc (clock w),
           db := snd (claim (db w) kw (fingerprint (sha256 e) (title p) (authors p) (year p) (url p))
                      p (utcnow e (clock w)))\<rparr>) = (Inl err, w3)"
  shows "process_rows e kw (p # post) w n =
     (Inl err, w3\<lparr>db := release (db w3) kw
                     (fingerprint (sha256 e) (title p) (authors p) (year p) (url p))\<rparr>)"
proof -
  let ?fp = "fingerprint (sha256 e) (title p) (authors p) (year p) (url p)"
  from claimed have ns: "\<not> seen (db w) kw ?fp" by (simp add: claim_Claimed_iff)
  from insert_eq_claim[OF ns, of p "utcnow e (clock w)"] notify
  show ?thesis by (simp add: Let_def)
qed

lemma seen_insert_other:
  "insert_seen_paper d k fp' p now = Inr d' \<Longrightarrow> kw \<noteq> k \<Longrightarrow> seen d' kw fp = seen d kw fp"
  by (auto simp: insert_seen_paper_def Let_def seen_def split: if_splits)

lemma seen_release_other_kw: "kw \<noteq> k \<Longrightarrow> seen (release d k fp') kw fp = seen d kw fp"
  by (auto simp: seen_def release_def list_ex_iff)

lemma seen_process_rows_other:
  "kw \<noteq> k \<Longrightarrow> seen (db (snd (process_rows e k rows w n))) kw fp = seen (db w) kw fp"
proof (induction rows arbitrary: w n)
  case Nil
  then show ?case by simp
next
  case (Cons p rows)
  let ?fp = "fingerprint (sha256 e) (title p) (authors p) (year p) (url p)"
  let ?w1 = "w\<lparr>clock := Suc (clock w)\<rparr>"
  show ?case
  proof (cases "insert_seen_paper (db ?w1) k ?fp p (utcnow e (clock w))")
    case (Inl a)
    with Cons.IH[OF Cons.prems, of ?w1 n] show ?thesis by (simp add: Let_def)
  next
    case (Inr d)
    from seen_insert_other[OF Inr Cons.prems, of fp] have sd: "seen d kw fp = seen (db w) kw fp"
      by simp
    obtain r w2 where s: "send_to_discord e k p (?w1\<lparr>db := d\<rparr>) = (r, w2)"
      by (cases "send_to_discord e k p (?w1\<lparr>db := d\<rparr>)")
    with db_send_to_discord[of e k p "?w1\<lparr>db := d\<rparr>"] have d2: "db w2 = d" by simp
    show ?thesis
    proof (cases r)
      case (Inl err)
      with Inr s d2 sd Cons.prems show ?thesis
        by (simp add: Let_def seen_release_other_kw)
    next
      case (Inr u)
      with \<open>insert_seen_paper (db ?w1) k ?fp p (utcnow e (clock w)) = Inr d\<close> s
        Cons.IH[OF Cons.prems, of w2 "n + 1"] d2 sd
      show ?thesis by (simp add: Let_def)
    qed
  qed
qed

lemma seen_process_keyword_other:
  assumes "kw \<noteq> k"
  shows "seen (db (snd (process_keyword e k w))) kw fp = seen (db w) kw fp"
proof -
  obtain r w1 where f: "fetch_scholar_results e k (PER_KEYWORD_LIMIT e) w = (r, w1)"
    by (cases "fetch_scholar_results e k (PER_KEYWORD_LIMIT e) w")
  with db_fetch[of e k "PER_KEYWORD_LIMIT e" w] have d1: "db w1 = db w" by simp
  show ?thesis
  proof (cases r)
    case (Inl err)
    with f d1 show ?thesis by (simp add: process_keyword_def)
  next
    case (Inr rows)
    with f d1 seen_process_rows_other[OF assms, of e rows w1 0 fp] show ?thesis
      by (simp add: process_keyword_def)
  qed
qed

lemma seen_run_terms_other:
  "kw \<notin> set ks \<Longrightarrow> seen (db (snd (run_terms e ks w t))) kw fp = seen (db w) kw fp"
proof (induction ks arbitrary: w t)
  case Nil
  then show ?case by simp
next
  case (Cons k ks)
  then have ne: "kw \<noteq> k" and ni: "kw \<notin> set ks" by auto
  obtain r w1 where p: "process_keyword e k w = (r, w1)" by (cases "process_keyword e k w")
  with seen_process_keyword_other[OF ne, of e w fp] have s1: "seen (db w1) kw fp = seen (db w) kw fp"
    by simp
  show ?case
  proof (cases r)
    case (Inl err)
    with p Cons.IH[OF ni, of "print_line (error_line k err) w1" t] s1 show ?thesis
      by (simp add: db_print_line)
  next
    case (Inr n)
    with p Cons.IH[OF ni, of w1 "t + n"] s1 show ?thesis by simp
  qed
qed

lemma db_run_cycle:
  "db (snd (run_cycle e w)) = db (snd (run_terms e (sort (map k_term (keyword_rows (db w)))) w 0))"
  by (simp add: run_cycle_def Let_def db_print_line split: prod.splits)

lemma fst_run_cycle:
  "fst (run_cycle e w) = fst (run_terms e (sort (map k_term (keyword_rows (db w)))) w 0)"
  by (simp add: run_cycle_def Let_def split: prod.splits)

lemma process_keyword_notify_failure:
  assumes fetch: "fetch_scholar_results e kw (PER_KEYWORD_LIMIT e) w = (Inr (pre @ p # post), w1)"
    and pre: "process_rows e kw pre w1 0 = (Inr n, w2)"
    and fp: "fp = fingerprint (sha256 e) (title p) (authors p) (year p) (url p)"
    and claimed: "fst (claim (db w2) kw fp p (utcnow e (clock w2))) = Claimed"
    and notify: "send_to_discord e kw p
        (w2\<lparr>clock := Suc (clock w2), db := snd (claim (db w2) kw fp p (utcnow e (clock w2)))\<rparr>) =
        (Inl err, w3)"
  shows "process_keyword e kw w = (Inl err, w3\<lparr>db := release (db w3) kw fp\<rparr>)"
    and "process_rows e kw (pre @ p # post) w1 0 = (Inl err, w3\<lparr>db := release (db w3) kw fp\<rparr>)"
    and "seen_papers (release (db w3) kw fp) = seen_papers (db w2)"
proof -
  from process_rows_notify_failure[OF claimed[unfolded fp] notify[unfolded fp], of post n]
  have one: "process_rows e kw (p # post) w2 n = (Inl err, w3\<lparr>db := release (db w3) kw fp\<rparr>)"
    by (simp add: fp)
  with pre show rows: "process_rows e kw (pre @ p # post) w1 0 =
      (Inl err, w3\<lparr>db := release (db w3) kw fp\<rparr>)"
    by (simp add: process_rows_append)
  with fetch show "process_keyword e kw w = (Inl err, w3\<lparr>db := release (db w3) kw fp\<rparr>)"
    by (simp add: process_keyword_def)
  from claimed have ns: "\<not> seen (db w2) kw fp" by (simp add: claim_Claimed_iff)
  from db_send_to_discord[of e kw p
      "w2\<lparr>clock := Suc (clock w2), db := snd (claim (db w2) kw fp p (utcnow e (clock w2)))\<rparr>"] notify
  have "db w3 = snd (claim (db w2) kw fp p (utcnow e (clock w2)))" by simp
  with release_after_claim[OF ns] show "seen_papers (release (db w3) kw fp) = seen_papers (db w2)"
    by simp
qed

text \<open>
  Claim C10. Let the search return \<open>pre @ p # post\<close> for a keyword, let the candidates
  of \<open>pre\<close> pass without an exception, let the claim of \<open>p\<close> return \<open>Claimed\<close>
  and let its notification fail. Then \<open>process_keyword\<close> raises that failure at once:
  its result is the one for \<open>post = []\<close>, the table \<open>seen_papers\<close> is as it was
  before \<open>p\<close>, and the POSTs and the clock are as the failed notification left them,
  so nothing of \<open>post\<close> is fingerprinted, claimed or notified. The cycle goes on with
  the keywords that follow.
\<close>

theorem notify_failure_stops_keyword:
  assumes fetch: "fetch_scholar_results e kw (PER_KEYWORD_LIMIT e) w = (Inr (pre @ p # post), w1)"
    and pre: "process_rows e kw pre w1 0 = (Inr n, w2)"
    and fp: "fp = fingerprint (sha256 e) (title p) (authors p) (year p) (url p)"
    and claimed: "fst (claim (db w2) kw fp p (utcnow e (clock w2))) = Claimed"
    and notify: "send_to_discord e kw p
        (w2\<lparr>clock := Suc (clock w2), db := snd (claim (db w2) kw fp p (utcnow e (clock w2)))\<rparr>) =
        (Inl err, w3)"
  shows "process_keyword e kw w = (Inl err, w3\<lparr>db := release (db w3) kw fp\<rparr>)
       \<and> process_rows e kw (pre @ p # post) w1 0 = process_rows e kw (pre @ [p]) w1 0
       \<and> seen_papers (db (snd (process_keyword e kw w))) = seen_papers (db w2)
       \<and> outbox (snd (process_keyword e kw w)) = outbox w3
       \<and> clock (snd (process_keyword e kw w)) = clock w3
       \<and> run_terms e (kw # ks) w t =
           run_terms e ks (print_line (error_line kw err) (w3\<lparr>db := release (db w3) kw fp\<rparr>)) t"
proof -
  note pk = process_keyword_notify_failure[OF fetch pre fp claimed notify]
  have "process_rows e kw (pre @ [p]) w1 0 = (Inl err, w3\<lparr>db := release (db w3) kw fp\<rparr>)"
    using process_rows_notify_failure[OF claimed[unfolded fp] notify[unfolded fp], of "[]" n] pre
    by (simp add: process_rows_append fp)
  with pk show ?thesis by simp
qed

theorem notify_failure_stops_keyword_witness:
  "fst (process_keyword (watch_env second_post_fails) ''bert'' (start_world sample_db)) =
     Inl (HTTPError 429)
   \<and> process_rows (watch_env second_post_fails) ''bert''
        ([to_paper bib_a] @ to_paper bib_b # [to_paper bib_c])
        ((start_world sample_db)\<lparr>clock := 1\<rparr>) 0 =
      process_rows (watch_env second_post_fails) ''bert'' ([to_paper bib_a] @ [to_paper bib_b])
        ((start_world sample_db)\<lparr>clock := 1\<rparr>) 0
   \<and> map sp_title (seen_papers (db (snd
        (process_keyword (watch_env second_post_fails) ''bert'' (start_world sample_db))))) =
      [''Graph attention'']
   \<and> length (outbox (snd
        (process_keyword (watch_env second_post_fails) ''bert'' (start_world sample_db)))) = 2"
proof -
  let ?e = "watch_env second_post_fails"
  let ?w = "start_world sample_db"
  let ?w1 = "?w\<lparr>clock := 1\<rparr>"
  let ?w2 = "snd (process_rows ?e ''bert'' [to_paper bib_a] ?w1 0)"
  let ?p = "to_paper bib_b"
  let ?fp = "fingerprint (sha256 ?e) (title ?p) (authors ?p) (year ?p) (url ?p)"
  let ?wc = "?w2\<lparr>clock := Suc (clock ?w2),
                 db := snd (claim (db ?w2) ''bert'' ?fp ?p (utcnow ?e (clock ?w2)))\<rparr>"
  let ?w3 = "snd (send_to_discord ?e ''bert'' ?p ?wc)"
  have fetch: "fetch_scholar_results ?e ''bert'' (PER_KEYWORD_LIMIT ?e) ?w =
      (Inr ([to_paper bib_a] @ ?p # [to_paper bib_c]), ?w1)"
    by (simp add: eval_defs)
  have "fst (process_rows ?e ''bert'' [to_paper bib_a] ?w1 0) = Inr 1"
    by (simp add: eval_defs)
  then have pre: "process_rows ?e ''bert'' [to_paper bib_a] ?w1 0 = (Inr 1, ?w2)"
    by (simp add: prod_eq_iff)
  have claimed: "fst (claim (db ?w2) ''bert'' ?fp ?p (utcnow ?e (clock ?w2))) = Claimed"
    by (simp add: eval_defs)
  have "fst (send_to_discord ?e ''bert'' ?p ?wc) = Inl (HTTPError 429)"
    by (simp add: eval_defs)
  then have notify: "send_to_discord ?e ''bert'' ?p ?wc = (Inl (HTTPError 429), ?w3)"
    by (simp add: prod_eq_iff)
  have w2: "map sp_title (seen_papers (db ?w2)) = [''Graph attention'']"
    by (simp add: eval_defs)
  have w3: "length (outbox ?w3) = 2"
    by (simp add: eval_defs)
  note stop = notify_failure_stops_keyword[OF fetch pre refl claimed notify, of "[]" 0]
  from stop have a: "fst (process_keyword ?e ''bert'' ?w) = Inl (HTTPError 429)"
    by (simp only: fst_conv)
  from stop have b: "process_rows ?e ''bert'' ([to_paper bib_a] @ ?p # [to_paper bib_c]) ?w1 0 =
      process_rows ?e ''bert'' ([to_paper bib_a] @ [?p]) ?w1 0"
    by (rule conjunct2[THEN conjunct1])
  from stop have "seen_papers (db (snd (process_keyword ?e ''bert'' ?w))) = seen_papers (db ?w2)"
    by (rule conjunct2[THEN conjunct2, THEN conjunct1])
  with w2 have c: "map sp_title (seen_papers (db (snd (process_keyword ?e ''bert'' ?w)))) =
      [''Graph attention'']"
    by (simp only:)
  from stop have "outbox (snd (process_keyword ?e ''bert'' ?w)) = outbox ?w3"
    by (rule conjunct2[THEN conjunct2, THEN conjunct2, THEN conjunct1])
  with w3 have d: "length (outbox (snd (process_keyword ?e ''bert'' ?w))) = 2"
    by (simp only:)
  from a b c d show ?thesis by (intro conjI)
qed

text \<open>
  Claim C1. The terms of the table \<open>keywords\<close> are distinct (the column is
  \<open>UNIQUE\<close>: \<open>unique_terms_add_keyword\<close>, \<open>unique_terms_delete_keyword\<close>). In a
  cycle, let the claim of a candidate \<open>p\<close> of keyword \<open>kw\<close> return
  \<open>Claimed\<close> and its notification fail. Then \<open>process_keyword\<close> raises the failure
  with the pair released, the pair has no row when the cycle is over, and the keyword
  adds nothing to the total the cycle returns.
\<close>

theorem claim_notify_atomicity:
  assumes ut: "unique_terms (db w0)"
    and terms: "sort (map k_term (keyword_rows (db w0))) = ks1 @ kw # ks2"
    and before: "run_terms e ks1 w0 0 = (t1, w)"
    and fetch: "fetch_scholar_results e kw (PER_KEYWORD_LIMIT e) w = (Inr (pre @ p # post), w1)"
    and pre: "process_rows e kw pre w1 0 = (Inr n, w2)"
    and fp: "fp = fingerprint (sha256 e) (title p) (authors p) (year p) (url p)"
    and claimed: "fst (claim (db w2) kw fp p (utcnow e (clock w2))) = Claimed"
    and notify: "send_to_discord e kw p
        (w2\<lparr>clock := Suc (clock w2), db := snd (claim (db w2) kw fp p (utcnow e (clock w2)))\<rparr>) =
        (Inl err, w3)"
  shows "process_keyword e kw w = (Inl err, w3\<lparr>db := release (db w3) kw fp\<rparr>)
       \<and> \<not> seen (release (db w3) kw fp) kw fp
       \<and> \<not> seen (db (snd (run_cycle e w0))) kw fp
       \<and> fst (run_cycle e w0) =
           t1 + fst (run_terms e ks2
                  (print_line (error_line kw err) (w3\<lparr>db := release (db w3) kw fp\<rparr>)) 0)"
proof -
  let ?wf = "w3\<lparr>db := release (db w3) kw fp\<rparr>"
  let ?wl = "print_line (error_line kw err) ?wf"
  note pk = process_keyword_notify_failure(1)[OF fetch pre fp claimed notify]
  from ut have "distinct (sort (map k_term (keyword_rows (db w0))))"
    by (simp add: unique_terms_def)
  with terms have ni: "kw \<notin> set ks2" by simp
  have run: "run_terms e (ks1 @ kw # ks2) w0 0 = run_terms e ks2 ?wl t1"
    using before pk by (simp add: run_terms_append)
  have "seen (db (snd (run_terms e ks2 ?wl t1))) kw fp = seen (db ?wl) kw fp"
    by (rule seen_run_terms_other[OF ni])
  then have a: "\<not> seen (db (snd (run_cycle e w0))) kw fp"
    using run terms by (simp add: db_run_cycle db_print_line not_seen_release)
  have b: "fst (run_cycle e w0) = t1 + fst (run_terms e ks2 ?wl 0)"
    using run terms run_terms_acc[of e ks2 ?wl t1] by (simp add: fst_run_cycle)
  from pk a b not_seen_release[of "db w3" kw fp] show ?thesis by blast
qed

theorem claim_notify_atomicity_witness:
  "unique_terms (db (start_world sample_db))
   \<and> fst (process_keyword (watch_env second_post_fails) ''bert'' (start_world sample_db)) =
       Inl (HTTPError 429)
   \<and> \<not> seen (db (snd (run_cycle (watch_env second_post_fails) (start_world sample_db))))
         ''bert''
         (fingerprint (sha256 (watch_env second_post_fails)) (title (to_paper bib_b))
            (authors (to_paper bib_b)) (year (to_paper bib_b)) (url (to_paper bib_b)))"
proof -
  let ?e = "watch_env second_post_fails"
  let ?w = "start_world sample_db"
  let ?w1 = "?w\<lparr>clock := 1\<rparr>"
  let ?w2 = "snd (process_rows ?e ''bert'' [to_paper bib_a] ?w1 0)"
  let ?p = "to_paper bib_b"
  let ?fp = "fingerprint (sha256 ?e) (title ?p) (authors ?p) (year ?p) (url ?p)"
  let ?wc = "?w2\<lparr>clock := Suc (clock ?w2),
                 db := snd (claim (db ?w2) ''bert'' ?fp ?p (utcnow ?e (clock ?w2)))\<rparr>"
  let ?w3 = "snd (send_to_discord ?e ''bert'' ?p ?wc)"
  have ut: "unique_terms (db ?w)"
    by (simp add: unique_terms_def start_world_def sample_db_def)
  have terms: "sort (map k_term (keyword_rows (db ?w))) = [] @ ''bert'' # [''offline'', ''rl'']"
    by (simp add: start_world_def sorted_terms)
  have before: "run_terms ?e [] ?w 0 = (0, ?w)" by simp
  have fetch: "fetch_scholar_results ?e ''bert'' (PER_KEYWORD_LIMIT ?e) ?w =
      (Inr ([to_paper bib_a] @ ?p # [to_paper bib_c]), ?w1)"
    by (simp add: eval_defs)
  have "fst (process_rows ?e ''bert'' [to_paper bib_a] ?w1 0) = Inr 1"
    by (simp add: eval_defs)
  then have pre: "process_rows ?e ''bert'' [to_paper bib_a] ?w1 0 = (Inr 1, ?w2)"
    by (simp add: prod_eq_iff)
  have claimed: "fst (claim (db ?w2) ''bert'' ?fp ?p (utcnow ?e (clock ?w2))) = Claimed"
    by (simp add: eval_defs)
  have "fst (send_to_discord ?e ''bert'' ?p ?wc) = Inl (HTTPError 429)"
    by (simp add: eval_defs)
  then have notify: "send_to_discord ?e ''bert'' ?p ?wc = (Inl (HTTPError 429), ?w3)"
    by (simp add: prod_eq_iff)
  note atom = claim_notify_atomicity[OF ut terms before fetch pre refl claimed notify]
  from atom have a: "fst (process_keyword ?e ''bert'' ?w) = Inl (HTTPError 429)"
    by (simp only: fst_conv)
  from atom have b: "\<not> seen (db (snd (run_cycle ?e ?w))) ''bert'' ?fp"
    by (rule conjunct2[THEN conjunct2, THEN conjunct1])
  from ut a b show ?thesis by (intro conjI)
qed

lemma console_send_to_discord: "console (snd (send_to_discord e kw p w)) = console w"
  by (simp add: send_to_discord_def Let_def split: post_result.splits)

lemma console_process_rows: "console (snd (process_rows e kw rows w n)) = console w"
proof (induction rows arbitrary: w n)
  case Nil
  then show ?case by simp
next
  case (Cons p rows)
  let ?fp = "fingerprint (sha256 e) (title p) (authors p) (year p) (url p)"
  let ?w1 = "w\<lparr>clock := Suc (clock w)\<rparr>"
  show ?case
  proof (cases "insert_seen_paper (db ?w1) kw ?fp p (utcnow e (clock w))")
    case (Inl a)
    with Cons.IH[of ?w1 n] show ?thesis by (simp add: Let_def)
  next
    case (Inr d)
    obtain r w2 where s: "send_to_discord e kw p (?w1\<lparr>db := d\<rparr>) = (r, w2)"
      by (cases "send_to_discord e kw p (?w1\<lparr>db := d\<rparr>)")
    with console_send_to_discord[of e kw p "?w1\<lparr>db := d\<rparr>"] have c2: "console w2 = console w"
      by simp
    show ?thesis
    proof (cases r)
      case (Inl err)
      with Inr s c2 show ?thesis by (simp add: Let_def)
    next
      case (Inr u)
      with \<open>insert_seen_paper (db ?w1) kw ?fp p (utcnow e (clock w)) = Inr d\<close> s
        Cons.IH[of w2 "n + 1"] c2
      show ?thesis by (simp add: Let_def)
    qed
  qed
qed

lemma console_process_keyword: "console (snd (process_keyword e k w)) = console w"
proof -
  obtain r w1 where f: "fetch_scholar_results e k (PER_KEYWORD_LIMIT e) w = (r, w1)"
    by (cases "fetch_scholar_results e k (PER_KEYWORD_LIMIT e) w")
  then have c1: "console w1 = console w"
    by (auto simp: fetch_scholar_results_def Let_def split: sum.splits)
  show ?thesis
  proof (cases r)
    case (Inl err)
    with f c1 show ?thesis by (simp add: process_keyword_def)
  next
    case (Inr rows)
    with f c1 console_process_rows[of e k rows w1 0] show ?thesis
      by (simp add: process_keyword_def)
  qed
qed

lemma console_run_terms: "set (console w) \<subseteq> set (console (snd (run_terms e ks w t)))"
proof (induction ks arbitrary: w t)
  case Nil
  then show ?case by simp
next
  case (Cons k ks)
  obtain r w1 where p: "process_keyword e k w = (r, w1)" by (cases "process_keyword e k w")
  with console_process_keyword[of e k w] have c1: "console w1 = console w" by simp
  show ?case
  proof (cases r)
    case (Inl err)
    with p Cons.IH[of "print_line (error_line k err) w1" t] c1 show ?thesis
      by (auto simp: print_line_def)
  next
    case (Inr n)
    with p Cons.IH[of w1 "t + n"] c1 show ?thesis by simp
  qed
qed

lemma console_run_cycle:
  "set (console (snd (run_terms e (sort (map k_term (keyword_rows (db w)))) w 0)))
     \<subseteq> set (console (snd (run_cycle e w)))"
  by (auto simp: run_cycle_def Let_def print_line_def split: prod.splits)

lemma process_keyword_fetch_error:
  "search_pubs e (clock w) kw = Inl err \<Longrightarrow>
   process_keyword e kw w = (Inl err, w\<lparr>clock := Suc (clock w)\<rparr>)"
  by (simp add: process_keyword_def fetch_scholar_results_def)

text \<open>
  Isolation of the keywords of a cycle. Let \<open>process_keyword\<close> raise for keyword
  \<open>a\<close>, as it does when the search raises (\<open>process_keyword_fetch_error\<close>). The
  error is printed and the loop goes on: a later keyword \<open>b\<close> is processed from the
  state the loop reached, and when \<open>b\<close> returns, its count is part of the total.
\<close>

lemma cycle_isolation:
  assumes terms: "sort (map k_term (keyword_rows (db w0))) = pre @ a # mid @ b # post"
    and before: "run_terms e pre w0 0 = (t1, w1)"
    and fail: "process_keyword e a w1 = (Inl err, w2)"
    and between: "run_terms e mid (print_line (error_line a err) w2) t1 = (t3, w3)"
    and ok: "process_keyword e b w3 = (Inr n, w4)"
  shows "run_terms e (pre @ [a]) w0 0 = (t1, print_line (error_line a err) w2)
       \<and> error_line a err \<in> set (console (snd (run_cycle e w0)))
       \<and> run_terms e (pre @ a # mid @ b # post) w0 0 = run_terms e post w4 (t3 + n)
       \<and> fst (run_cycle e w0) = t3 + n + fst (run_terms e post w4 0)"
proof -
  let ?wl = "print_line (error_line a err) w2"
  have a: "run_terms e (pre @ [a]) w0 0 = (t1, ?wl)"
    using before fail by (simp add: run_terms_append)
  have "run_terms e ((pre @ [a]) @ mid @ b # post) w0 0 = run_terms e post w4 (t3 + n)"
    using a between ok by (simp only: run_terms_append) simp
  then have c: "run_terms e (pre @ a # mid @ b # post) w0 0 = run_terms e post w4 (t3 + n)"
    by simp
  have d: "fst (run_cycle e w0) = t3 + n + fst (run_terms e post w4 0)"
    using c terms run_terms_acc[of e post w4 "t3 + n"] by (simp add: fst_run_cycle)
  have "run_terms e ((pre @ [a]) @ mid @ b # post) w0 0 = run_terms e (mid @ b # post) ?wl t1"
    using a by (simp only: run_terms_append) simp
  then have "console (snd (run_terms e (pre @ a # mid @ b # post) w0 0)) =
      console (snd (run_terms e (mid @ b # post) ?wl t1))" by simp
  moreover have "error_line a err \<in> set (console ?wl)" by (simp add: print_line_def)
  ultimately have "error_line a err \<in> set (console (snd (run_terms e (pre @ a # mid @ b # post) w0 0)))"
    using console_run_terms[of ?wl e "mid @ b # post" t1] by auto
  with terms console_run_cycle[of e w0]
  have b: "error_line a err \<in> set (console (snd (run_cycle e w0)))" by auto
  from a b c d show ?thesis by (intro conjI)
qed

lemma cycle_isolation_example:
  "fst (process_keyword (watch_env second_post_fails) ''offline''
         (snd (run_terms (watch_env second_post_fails) [''bert''] (start_world sample_db) 0))) =
     Inl (ScholarlyError ''unreachable'')
   \<and> ErrorLine ''offline'' (ScholarlyError ''unreachable'')
       \<in> set (console (snd (run_cycle (watch_env second_post_fails) (start_world sample_db))))
   \<and> fst (run_cycle (watch_env second_post_fails) (start_world sample_db)) = 3"
proof -
  let ?e = "watch_env second_post_fails"
  let ?w0 = "start_world sample_db"
  let ?w1 = "snd (run_terms ?e [''bert''] ?w0 0)"
  let ?err = "ScholarlyError ''unreachable''"
  let ?w2 = "snd (process_keyword ?e ''offline'' ?w1)"
  let ?w3 = "print_line (error_line ''offline'' ?err) ?w2"
  let ?w4 = "snd (process_keyword ?e ''rl'' ?w3)"
  have terms: "sort (map k_term (keyword_rows (db ?w0))) =
      [''bert''] @ ''offline'' # [] @ ''rl'' # []"
    by (simp add: start_world_def sorted_terms)
  have "fst (run_terms ?e [''bert''] ?w0 0) = 0" by (simp add: eval_defs)
  then have before: "run_terms ?e [''bert''] ?w0 0 = (0, ?w1)" by (simp add: prod_eq_iff)
  have f: "fst (process_keyword ?e ''offline'' ?w1) = Inl ?err" by (simp add: eval_defs)
  then have fail: "process_keyword ?e ''offline'' ?w1 = (Inl ?err, ?w2)"
    by (simp add: prod_eq_iff)
  have between: "run_terms ?e [] ?w3 0 = (0, ?w3)" by simp
  have "fst (process_keyword ?e ''rl'' ?w3) = Inr 3" by (simp add: eval_defs)
  then have ok: "process_keyword ?e ''rl'' ?w3 = (Inr 3, ?w4)" by (simp add: prod_eq_iff)
  have el: "error_line ''offline'' ?err = ErrorLine ''offline'' ?err"
    by (simp add: error_line_def)
  note iso = cycle_isolation[OF terms before fail between ok]
  from iso have "error_line ''offline'' ?err \<in> set (console (snd (run_cycle ?e ?w0)))"
    by (rule conjunct2[THEN conjunct1])
  then have b: "ErrorLine ''offline'' ?err \<in> set (console (snd (run_cycle ?e ?w0)))"
    by (simp only: el)
  from iso have "fst (run_cycle ?e ?w0) = 0 + 3 + fst (run_terms ?e [] ?w4 0)"
    by (rule conjunct2[THEN conjunct2, THEN conjunct2])
  then have c: "fst (run_cycle ?e ?w0) = 3" by simp
  from f b c show ?thesis by (intro conjI)
qed

text \<open>
  Claim C4 at a failing input. Two keywords, \<open>offline\<close> and \<open>rl\<close>. The search
  raises for \<open>offline\<close>; the error is printed and \<open>rl\<close> is processed. For \<open>rl\<close>
  the webhook accepts the first POST and answers 429 to the second. The first paper of
  \<open>rl\<close> is delivered and stays recorded as seen, and \<open>run_cycle\<close> returns 0: the
  delivered item of the remaining keyword is not in the total. The isolation itself
  holds (\<open>cycle_isolation\<close>); the count is lost because \<open>rl\<close> raises after
  its delivery.
\<close>

theorem later_keyword_count_lost:
  "fst (process_keyword (watch_env sixth_call_fails) ''offline'' (start_world offline_rl_db)) =
     Inl (ScholarlyError ''unreachable'')
   \<and> fst (run_cycle (watch_env sixth_call_fails) (start_world offline_rl_db)) = 0
   \<and> map (\<lambda>r. (sp_kw_term r, sp_title r))
        (seen_papers (db (snd (run_cycle (watch_env sixth_call_fails)
           (start_world offline_rl_db))))) = [(''rl'', ''Graph attention'')]
   \<and> outbox (snd (run_cycle (watch_env sixth_call_fails) (start_world offline_rl_db))) =
       [(''https://discord.test/hook'', discord_content ''rl'' (to_paper bib_a)),
        (''https://discord.test/hook'', discord_content ''rl'' (to_paper bib_b))]
   \<and> requests_post (watch_env sixth_call_fails) 3 ''https://discord.test/hook''
        (discord_content ''rl'' (to_paper bib_a)) = Response 204
   \<and> console (snd (run_cycle (watch_env sixth_call_fails) (start_world offline_rl_db))) =
       [ErrorLine ''offline'' (ScholarlyError ''unreachable''),
        HTTPErrorLine ''rl'' (HTTPError 429)]"
  by (simp add: run_cycle_def eval_defs offline_rl_db_def sixth_call_fails_def)

lemma length_insert_seen:
  "insert_seen_paper d kw fp p now = Inr d' \<Longrightarrow>
   length (seen_papers d') = Suc (length (seen_papers d))"
  by (auto simp: insert_seen_paper_def Let_def split: if_splits)

lemma send_ok_outbox:
  "send_to_discord e kw p w = (Inr u, w') \<Longrightarrow> length (outbox w') = Suc (length (outbox w))"
  by (auto simp: send_to_discord_def Let_def split: if_splits post_result.splits)

lemma process_rows_counts_deliveries:
  "process_rows e kw rows w n = (Inr m, w') \<Longrightarrow>
     int (length (seen_papers (db w'))) = int (length (seen_papers (db w))) + (m - n) \<and>
     int (length (outbox w')) = int (length (outbox w)) + (m - n)"
proof (induction rows arbitrary: w n)
  case Nil
  then show ?case by simp
next
  case (Cons p rows)
  let ?fp = "fingerprint (sha256 e) (title p) (authors p) (year p) (url p)"
  let ?w1 = "w\<lparr>clock := Suc (clock w)\<rparr>"
  show ?case
  proof (cases "insert_seen_paper (db ?w1) kw ?fp p (utcnow e (clock w))")
    case (Inl a)
    with Cons.prems have "process_rows e kw rows ?w1 n = (Inr m, w')" by (simp add: Let_def)
    from Cons.IH[OF this] show ?thesis by simp
  next
    case (Inr d)
    obtain r w2 where s: "send_to_discord e kw p (?w1\<lparr>db := d\<rparr>) = (r, w2)"
      by (cases "send_to_discord e kw p (?w1\<lparr>db := d\<rparr>)")
    with db_send_to_discord[of e kw p "?w1\<lparr>db := d\<rparr>"] have d2: "db w2 = d" by simp
    show ?thesis
    proof (cases r)
      case (Inl err)
      with Inr s Cons.prems show ?thesis by (simp add: Let_def)
    next
      case (Inr u)
      with \<open>insert_seen_paper (db ?w1) kw ?fp p (utcnow e (clock w)) = Inr d\<close> s Cons.prems
      have "process_rows e kw rows w2 (n + 1) = (Inr m, w')" by (simp add: Let_def)
      from Cons.IH[OF this] d2
        length_insert_seen[OF \<open>insert_seen_paper (db ?w1) kw ?fp p (utcnow e (clock w)) = Inr d\<close>]
        send_ok_outbox[OF s[unfolded Inr]]
      show ?thesis by simp
    qed
  qed
qed

text \<open>
  Claim C3 at a failing input. One keyword, \<open>bert\<close>; the search returns three new
  papers; the webhook accepts the first POST and answers 429 to the second. The first
  paper is delivered and stays recorded as seen, and \<open>run_cycle\<close> returns 0: the
  count of a keyword is lost when a later candidate of the same keyword fails. When no
  candidate fails, \<open>process_rows_counts_deliveries\<close> says that the count is the number of
  rows inserted and of POSTs made.
\<close>

theorem run_cycle_undercounts:
  "fst (run_cycle (watch_env second_post_fails) (start_world bert_db)) = 0
   \<and> map sp_title (seen_papers (db (snd (run_cycle (watch_env second_post_fails)
        (start_world bert_db))))) = [''Graph attention'']
   \<and> outbox (snd (run_cycle (watch_env second_post_fails) (start_world bert_db))) =
       [(''https://discord.test/hook'', discord_content ''bert'' (to_paper bib_a)),
        (''https://discord.test/hook'', discord_content ''bert'' (to_paper bib_b))]
   \<and> requests_post (watch_env second_post_fails) 2 ''https://discord.test/hook''
        (discord_content ''bert'' (to_paper bib_a)) = Response 204
   \<and> console (snd (run_cycle (watch_env second_post_fails) (start_world bert_db))) =
       [HTTPErrorLine ''bert'' (HTTPError 429)]"
  by (simp add: run_cycle_def eval_defs)

end
